theory Spec2Isabelle
  imports Main "HOL-Library.Multiset"
begin

section \<open>Types, values and errors of the decoder\<close>

text \<open>
  The decoder of \<^verbatim>\<open>contrib/runtime/env\<close> and the parser registry of
  \<^verbatim>\<open>internal/param_registry.go\<close> work on Go's runtime type descriptors
  (\<^verbatim>\<open>reflect.Type\<close>) and reflected values. A type descriptor is a term of
  \<open>rtype\<close>; kinds carry the suffix \<open>K\<close>, \<open>Basic k\<close> is the predeclared type of a basic kind (\<^verbatim>\<open>bool\<close>,
  \<^verbatim>\<open>int\<close>, \<^verbatim>\<open>string\<close>, ...), \<open>Named n u\<close> a defined type with name
  \<open>n\<close> and underlying type \<open>u\<close>.
\<close>

datatype kind =
    InvalidK | BoolK | IntK | Int8K | Int16K | Int32K | Int64K
  | UintK | Uint8K | Uint16K | Uint32K | Uint64K | UintptrK
  | Float32K | Float64K | Complex64K | Complex128K
  | ArrayK | ChanK | FuncK | InterfaceK | MapK | PointerK | SliceK | StringK | StructK
  | UnsafePointerK

datatype rtype =
    Basic kind
  | Named string rtype
  | PointerTo rtype
  | SliceOf rtype
  | ArrayOf nat rtype
  | ChanOf rtype
  | MapOf rtype rtype
  | FuncT
  | InterfaceT
  | StructOf "sfield list"
and sfield =
    SField (fname: string) (exported: bool) (ftag: "(string \<times> string) list") (ftype: rtype)

text \<open>\<^verbatim>\<open>Type.Kind()\<close>: the kind of a defined type is the kind of its underlying type.\<close>

fun kind_of :: "rtype \<Rightarrow> kind" where
  "kind_of (Basic k) = k"
| "kind_of (Named n u) = kind_of u"
| "kind_of (PointerTo t) = PointerK"
| "kind_of (SliceOf t) = SliceK"
| "kind_of (ArrayOf n t) = ArrayK"
| "kind_of (ChanOf t) = ChanK"
| "kind_of (MapOf k v) = MapK"
| "kind_of FuncT = FuncK"
| "kind_of InterfaceT = InterfaceK"
| "kind_of (StructOf fs) = StructK"

fun underlying :: "rtype \<Rightarrow> rtype" where
  "underlying (Named n u) = underlying u"
| "underlying t = t"

text \<open>
  \<^verbatim>\<open>Type.Elem()\<close> is defined for Array, Chan, Map, Pointer and Slice and panics
  (\<^verbatim>\<open>reflect: Elem of invalid type\<close>) for every other kind; \<open>None\<close> is that panic.
\<close>

fun elem :: "rtype \<Rightarrow> rtype option" where
  "elem (Named n u) = elem u"
| "elem (PointerTo t) = Some t"
| "elem (SliceOf t) = Some t"
| "elem (ArrayOf n t) = Some t"
| "elem (ChanOf t) = Some t"
| "elem (MapOf k v) = Some v"
| "elem t = None"

text \<open>
  Reflected values. A pointer owns its target (\<open>VPtr None\<close> is the nil pointer): every
  pointer the decoder stores is freshly allocated with \<^verbatim>\<open>reflect.New\<close>, so no two
  of them alias. \<open>VIface t v\<close> is a value of interface type holding \<open>v\<close> of dynamic
  type \<open>t\<close>. All integer kinds carry an \<open>int\<close>; floating-point and foreign values
  (URLs, durations, ...) are opaque and carry the text they were made from.
\<close>

datatype val =
    VBool bool
  | VInt int
  | VFloat string
  | VString string
  | VOpaque string
  | VNil
  | VIface rtype val
  | VPtr "val option"
  | VSlice "val list option"
  | VArray "val list"
  | VMap "(val \<times> val) list option"
  | VStruct "val list"

text \<open>A value of interface type \<^verbatim>\<open>any\<close>: nil, or a dynamic type with its value.\<close>

datatype any = Nil | Any rtype val

text \<open>
  Go errors as values. \<open>NumError f s e\<close> is \<^verbatim>\<open>*strconv.NumError\<close>, \<open>Wrapped m e\<close> is
  \<^verbatim>\<open>fmt.Errorf(m + ": %w", e)\<close>, with \<open>IndexError i e\<close>, \<open>KeyError k e\<close> and
  \<open>ValueError v e\<close> for the formats \<^verbatim>\<open>"index %v: %w"\<close>, \<^verbatim>\<open>"key %q: %w"\<close> and
  \<^verbatim>\<open>"value %q: %w"\<close>; \<open>Joined es\<close> is the result of \<^verbatim>\<open>errors.Join\<close>,
  \<open>FieldError k t e\<close> and \<open>InvalidMapItemFormatError\<close> are the types of
  \<^verbatim>\<open>env/errors.go\<close>, \<open>UnmarshalFuncError\<close> the one of \<^verbatim>\<open>internal\<close>, and
  \<open>Opaque m\<close> any other error, known by its message.
\<close>

datatype err =
    ErrSyntax
  | ErrRange
  | NumError string string err
  | ErrValueNotSet
  | ErrNotStructPtr
  | InvalidMapItemFormatError string string
  | UnmarshalFuncError rtype err
  | FieldError string rtype err
  | Wrapped string err
  | IndexError nat err
  | KeyError string err
  | ValueError string err
  | Joined "err list"
  | Canceled
  | DeadlineExceeded
  | Opaque string

section \<open>The standard library's integer parsers\<close>

text \<open>
  \<^verbatim>\<open>strconv.ParseUint(s, base, bitSize)\<close> for \<open>2 \<le> base \<le> 36\<close> and
  \<open>1 \<le> bitSize \<le> 64\<close>, the only way the built-in parsers call it (base 10). The
  accumulator is a \<^verbatim>\<open>uint64\<close>: a natural number below \<open>2 ^ 64\<close>, with the
  wrap-around of \<open>n + d\<close> written out. Both results of the Go function are kept: the
  number and the error.
\<close>

definition maxUint64 :: nat where
  "maxUint64 = 2 ^ 64 - 1"

definition byte :: "char \<Rightarrow> nat" where
  "byte c = of_char c"

text \<open>\<^verbatim>\<open>lower(c) = c | ('x' - 'X')\<close> sets bit 5 of the byte.\<close>

definition lower :: "nat \<Rightarrow> nat" where
  "lower c = (if (c div 32) mod 2 = 1 then c else c + 32)"

definition syntaxError :: "string \<Rightarrow> string \<Rightarrow> err" where
  "syntaxError fn s = NumError fn s ErrSyntax"

definition rangeError :: "string \<Rightarrow> string \<Rightarrow> err" where
  "rangeError fn s = NumError fn s ErrRange"

fun parseUint_loop :: "nat \<Rightarrow> nat \<Rightarrow> string \<Rightarrow> nat \<Rightarrow> string \<Rightarrow> nat \<times> err option" where
  "parseUint_loop base maxVal s0 n [] = (n, None)"
| "parseUint_loop base maxVal s0 n (c # cs) =
     (let b = byte c;
          d = (if 48 \<le> b \<and> b \<le> 57 then Some (b - 48)
               else if 97 \<le> lower b \<and> lower b \<le> 122 then Some (lower b - 97 + 10)
               else None)
      in case d of
           None \<Rightarrow> (0, Some (syntaxError ''ParseUint'' s0))
         | Some d \<Rightarrow>
             if d \<ge> base then (0, Some (syntaxError ''ParseUint'' s0))
             else if n \<ge> maxUint64 div base + 1 then (maxVal, Some (rangeError ''ParseUint'' s0))
             else
               let n' = n * base;
                   n1 = (n' + d) mod 2 ^ 64
               in if n1 < n' \<or> n1 > maxVal then (maxVal, Some (rangeError ''ParseUint'' s0))
                  else parseUint_loop base maxVal s0 n1 cs)"

definition ParseUint :: "string \<Rightarrow> nat \<Rightarrow> nat \<Rightarrow> nat \<times> err option" where
  "ParseUint s base bitSize =
     (if s = [] then (0, Some (syntaxError ''ParseUint'' s))
      else parseUint_loop base (2 ^ bitSize - 1) s 0 s)"

text \<open>
  \<^verbatim>\<open>strconv.ParseInt\<close>: picks off a leading sign, parses the rest unsigned, renames
  a syntax error and checks the signed range.
\<close>

definition ParseInt :: "string \<Rightarrow> nat \<Rightarrow> nat \<Rightarrow> int \<times> err option" where
  "ParseInt s0 base bitSize =
     (case s0 of
        [] \<Rightarrow> (0, Some (syntaxError ''ParseInt'' s0))
      | c # cs \<Rightarrow>
          let neg = (c = CHR ''-'');
              s = (if c = CHR ''+'' \<or> c = CHR ''-'' then cs else s0);
              (un, e) = ParseUint s base bitSize;
              cutoff = 2 ^ (bitSize - 1)
          in case (case e of Some (NumError f n x) \<Rightarrow> if x \<noteq> ErrRange then Some x else None
                           | _ \<Rightarrow> None) of
               Some x \<Rightarrow> (0, Some (NumError ''ParseInt'' s0 x))
             | None \<Rightarrow>
                 if \<not> neg \<and> un \<ge> cutoff then (int cutoff - 1, Some (rangeError ''ParseInt'' s0))
                 else if neg \<and> un > cutoff then (- int cutoff, Some (rangeError ''ParseInt'' s0))
                 else (if neg then - int un else int un, None))"


text \<open>\<^verbatim>\<open>strconv.ParseBool\<close>.\<close>

definition ParseBool :: "string \<Rightarrow> bool \<times> err option" where
  "ParseBool str =
     (if str \<in> set [''1'', ''t'', ''T'', ''true'', ''TRUE'', ''True''] then (True, None)
      else if str \<in> set [''0'', ''f'', ''F'', ''false'', ''FALSE'', ''False''] then (False, None)
      else (False, Some (syntaxError ''ParseBool'' str)))"

section \<open>The parser registry\<close>

text \<open>
  A parser (\<^verbatim>\<open>parserFunc\<close>) takes the raw text and returns a value and an error; the
  context argument is left out, no parser of the repository reads it. \<open>PPanic\<close> is a
  parser that panics.
\<close>

datatype presult = PPanic | PRet any "err option"

type_synonym parserFunc = "string \<Rightarrow> presult"

text \<open>
  What the registry takes from outside this repository, as parameters of the model:
  \<^item> \<open>parseFloat\<close>: \<^verbatim>\<open>strconv.ParseFloat\<close> (floating point is not modelled);
  \<^item> \<open>envRegistry\<close>: the contents of the explicit registry (a global map filled by
    \<^verbatim>\<open>RegisterEnvParser\<close> before any lookup); an entry \<open>Some None\<close> is a registered
    nil function, as the entries for \<^verbatim>\<open>*os.File\<close> and \<^verbatim>\<open>fs.File\<close> are;
  \<^item> \<open>valueUnmarshalText t\<close>: the method \<^verbatim>\<open>func (T) UnmarshalText([]byte) error\<close> of
    a type that declares it with a value receiver. The method works on a copy of its
    receiver, so all that comes back is the error;
  \<^item> \<open>ptrUnmarshalText t\<close>: the method \<^verbatim>\<open>func (*T) UnmarshalText([]byte) error\<close> of a
    type that declares it with a pointer receiver, called on a pointer to the zero
    value: the error, or the value the target holds afterwards;
  \<^item> \<open>implements v t\<close>: whether the method set of \<open>v\<close> has the methods of the
    interface type \<open>t\<close>.
\<close>

record externs =
  parseFloat :: "string \<Rightarrow> nat \<Rightarrow> val \<times> err option"
  envRegistry :: "rtype \<Rightarrow> parserFunc option option"
  valueUnmarshalText :: "rtype \<Rightarrow> (string \<Rightarrow> err option) option"
  ptrUnmarshalText :: "rtype \<Rightarrow> (string \<Rightarrow> err + val) option"
  implements :: "rtype \<Rightarrow> rtype \<Rightarrow> bool"

text \<open>\<^verbatim>\<open>defaultBuiltInParsers\<close>, keyed by kind.\<close>

definition intParser :: "kind \<Rightarrow> nat \<Rightarrow> parserFunc" where
  "intParser k bits v = (case ParseInt v 10 bits of (i, e) \<Rightarrow> PRet (Any (Basic k) (VInt i)) e)"

definition uintParser :: "kind \<Rightarrow> nat \<Rightarrow> parserFunc" where
  "uintParser k bits v = (case ParseUint v 10 bits of (i, e) \<Rightarrow> PRet (Any (Basic k) (VInt (int i))) e)"

definition floatParser :: "externs \<Rightarrow> kind \<Rightarrow> nat \<Rightarrow> parserFunc" where
  "floatParser x k bits v = (case parseFloat x v bits of (f, e) \<Rightarrow> PRet (Any (Basic k) f) e)"

definition defaultBuiltInParsers :: "externs \<Rightarrow> kind \<Rightarrow> parserFunc option" where
  "defaultBuiltInParsers x k =
     (if k = BoolK then Some (\<lambda>v. case ParseBool v of (b, e) \<Rightarrow> PRet (Any (Basic BoolK) (VBool b)) e)
      else if k = StringK then Some (\<lambda>v. PRet (Any (Basic StringK) (VString v)) None)
      else if k = IntK then Some (intParser IntK 32)
      else if k = Int16K then Some (intParser Int16K 16)
      else if k = Int32K then Some (intParser Int32K 32)
      else if k = Int64K then Some (intParser Int64K 64)
      else if k = Int8K then Some (intParser Int8K 8)
      else if k = UintK then Some (uintParser UintK 32)
      else if k = Uint16K then Some (uintParser Uint16K 16)
      else if k = Uint32K then Some (uintParser Uint32K 32)
      else if k = Uint64K then Some (uintParser Uint64K 64)
      else if k = Uint8K then Some (uintParser Uint8K 8)
      else if k = Float64K then Some (floatParser x Float64K 64)
      else if k = Float32K then Some (floatParser x Float32K 32)
      else None)"

text \<open>The zero value of a type (\<^verbatim>\<open>reflect.New(t).Elem()\<close>, \<^verbatim>\<open>reflect.Zero\<close>).\<close>

fun zero :: "rtype \<Rightarrow> val" and zero_field :: "sfield \<Rightarrow> val" where
  "zero (Basic k) =
     (if k = BoolK then VBool False
      else if k \<in> set [IntK, Int8K, Int16K, Int32K, Int64K, UintK, Uint8K, Uint16K, Uint32K, Uint64K, UintptrK]
        then VInt 0
      else if k = Float32K \<or> k = Float64K then VFloat ''0''
      else if k = StringK then VString []
      else VNil)"
| "zero (Named n u) = zero u"
| "zero (PointerTo t) = VPtr None"
| "zero (SliceOf t) = VSlice None"
| "zero (ArrayOf n t) = VArray (replicate n (zero t))"
| "zero (ChanOf t) = VNil"
| "zero (MapOf k v) = VMap None"
| "zero FuncT = VNil"
| "zero InterfaceT = VNil"
| "zero (StructOf fs) = VStruct (map zero_field fs)"
| "zero_field (SField n e tg t) = zero t"

text \<open>
  Pointer restoration: \<open>n\<close> times \<^verbatim>\<open>p := reflect.New(v.Type()); p.Elem().Set(v); v = p\<close>.
\<close>

fun ptr_wrap :: "nat \<Rightarrow> rtype \<Rightarrow> val \<Rightarrow> rtype \<times> val" where
  "ptr_wrap 0 t v = (t, v)"
| "ptr_wrap (Suc n) t v = ptr_wrap n (PointerTo t) (VPtr (Some v))"

definition any_of :: "rtype \<times> val \<Rightarrow> any" where
  "any_of tv = Any (fst tv) (snd tv)"

text \<open>
  \<^verbatim>\<open>valueTextUnmarshaler\<close>. The method is called on \<^verbatim>\<open>value.Interface()\<close>, a copy
  of the zero value, so \<^verbatim>\<open>value\<close> is the zero value afterwards too. For an interface
  type the copy is the nil interface and the type assertion panics.
\<close>

definition valueTextUnmarshaler :: "(string \<Rightarrow> err option) \<Rightarrow> rtype \<Rightarrow> nat \<Rightarrow> parserFunc" where
  "valueTextUnmarshaler um base depth raw =
     (if kind_of base = InterfaceK then PPanic
      else case um raw of
             Some e \<Rightarrow> PRet Nil (Some (UnmarshalFuncError base e))
           | None \<Rightarrow>
               if depth = 0 then PRet (Any base (zero base)) None
               else PRet (any_of (ptr_wrap depth base (zero base))) None)"

text \<open>\<^verbatim>\<open>ptrTextUnmarshaler\<close>: the synthesized value is a pointer to a new target.\<close>

definition ptrTextUnmarshaler :: "(string \<Rightarrow> err + val) \<Rightarrow> rtype \<Rightarrow> nat \<Rightarrow> parserFunc" where
  "ptrTextUnmarshaler um base depth raw =
     (case um raw of
        Inl e \<Rightarrow> PRet Nil (Some (UnmarshalFuncError (PointerTo base) e))
      | Inr v \<Rightarrow>
          if depth = 0 then PRet (Any base v) None
          else if depth = 1 then PRet (Any (PointerTo base) (VPtr (Some v))) None
          else PRet (any_of (ptr_wrap (depth - 1) (PointerTo base) (VPtr (Some v)))) None)"

text \<open>
  \<^verbatim>\<open>handleTextUnmarshaler\<close>: unpack all pointers, then look for the method on the
  base type and on the pointer to it.
\<close>

lemma size_elem: "elem t = Some u \<Longrightarrow> size u < size t"
  by (induction t rule: elem.induct) auto

function unpack_pointers :: "rtype \<Rightarrow> nat \<Rightarrow> rtype \<times> nat" where
  "unpack_pointers base depth =
     (if kind_of base = PointerK
      then (case elem base of Some b \<Rightarrow> unpack_pointers b (depth + 1) | None \<Rightarrow> (base, depth))
      else (base, depth))"
  by pat_completeness auto
termination
  by (relation "measure (\<lambda>(t, d). size t)") (auto simp: size_elem)

definition handleTextUnmarshaler :: "externs \<Rightarrow> rtype \<Rightarrow> parserFunc option" where
  "handleTextUnmarshaler x typ =
     (case unpack_pointers typ 0 of (base, depth) \<Rightarrow>
        (case valueUnmarshalText x base of
           Some um \<Rightarrow> Some (valueTextUnmarshaler um base depth)
         | None \<Rightarrow>
             (case ptrUnmarshalText x base of
                Some um \<Rightarrow> Some (ptrTextUnmarshaler um base depth)
              | None \<Rightarrow> None)))"

text \<open>
  \<^verbatim>\<open>GetParseFunc\<close>. The loop tests the kind of \<^verbatim>\<open>inner\<close>, which keeps the type the
  function was called with, and replaces \<^verbatim>\<open>typ\<close> by \<^verbatim>\<open>typ.Elem()\<close>; \<open>ElemPanic\<close>
  is the panic of \<^verbatim>\<open>Elem\<close> on a type that has no element type.
\<close>

datatype lookup = Found "parserFunc option" nat | NotFound | ElemPanic

function GetParseFunc_loop :: "externs \<Rightarrow> rtype \<Rightarrow> rtype \<Rightarrow> nat \<Rightarrow> lookup" where
  "GetParseFunc_loop x inner typ depth =
     (case envRegistry x typ of
        Some f \<Rightarrow> Found f depth
      | None \<Rightarrow>
          (case handleTextUnmarshaler x typ of
             Some f \<Rightarrow> Found (Some f) depth
           | None \<Rightarrow>
               (case defaultBuiltInParsers x (kind_of typ) of
                  Some f \<Rightarrow> Found (Some f) depth
                | None \<Rightarrow>
                    if kind_of inner \<noteq> PointerK then NotFound
                    else (case elem typ of
                            None \<Rightarrow> ElemPanic
                          | Some t \<Rightarrow> GetParseFunc_loop x inner t (depth + 1)))))"
  by pat_completeness auto
termination
  by (relation "measure (\<lambda>(x, inner, t, d). size t)") (auto simp: size_elem)

definition GetParseFunc :: "externs \<Rightarrow> rtype \<Rightarrow> lookup" where
  "GetParseFunc x typ = GetParseFunc_loop x typ typ 0"


section \<open>Splitting text\<close>

text \<open>
  \<^verbatim>\<open>strings.Split\<close> and \<^verbatim>\<open>strings.SplitN\<close> (both are \<^verbatim>\<open>genSplit\<close>) on text
  whose characters are single bytes. \<open>Index\<close> is the position of the first instance
  of the separator, \<open>Count\<close> the number of non-overlapping instances.
\<close>

fun Index :: "string \<Rightarrow> string \<Rightarrow> nat option" where
  "Index [] sep = (if sep = [] then Some 0 else None)"
| "Index (c # cs) sep =
     (if take (length sep) (c # cs) = sep then Some 0 else map_option Suc (Index cs sep))"

function Count :: "string \<Rightarrow> string \<Rightarrow> nat" where
  "Count s sep =
     (if sep = [] then length s + 1
      else case Index s sep of
             None \<Rightarrow> 0
           | Some m \<Rightarrow> if m + length sep \<le> length s then Suc (Count (drop (m + length sep) s) sep) else 0)"
  by pat_completeness auto
termination
proof (relation "measure (\<lambda>(s, sep). length s)")
  show "wf (measure (\<lambda>(s, sep). length s))" by simp
next
  fix s sep :: string and m :: nat
  assume "sep \<noteq> []" and "m + length sep \<le> length s"
  then show "((drop (m + length sep) s, sep), (s, sep)) \<in> measure (\<lambda>(s, sep). length s)"
    by (cases sep) auto
qed

fun genSplit_loop :: "string \<Rightarrow> string \<Rightarrow> nat \<Rightarrow> string list" where
  "genSplit_loop s sep 0 = [s]"
| "genSplit_loop s sep (Suc k) =
     (case Index s sep of
        None \<Rightarrow> [s]
      | Some m \<Rightarrow> take m s # genSplit_loop (drop (m + length sep) s) sep k)"

fun explode_loop :: "string \<Rightarrow> nat \<Rightarrow> string list" where
  "explode_loop s 0 = []"
| "explode_loop s (Suc 0) = [s]"
| "explode_loop s (Suc (Suc k)) =
     (case s of [] \<Rightarrow> [s] | c # cs \<Rightarrow> [c] # explode_loop cs (Suc k))"

definition explode :: "string \<Rightarrow> int \<Rightarrow> string list" where
  "explode s n = explode_loop s (if n < 0 \<or> n > int (length s) then length s else nat n)"

definition genSplit :: "string \<Rightarrow> string \<Rightarrow> int \<Rightarrow> string list" where
  "genSplit s sep n =
     (if n = 0 then []
      else if sep = [] then explode s n
      else let n1 = (if n < 0 then int (Count s sep) + 1 else n);
               n2 = (if n1 > int (length s) + 1 then int (length s) + 1 else n1)
           in genSplit_loop s sep (nat (n2 - 1)))"

definition Split :: "string \<Rightarrow> string \<Rightarrow> string list" where
  "Split s sep = genSplit s sep (- 1)"

definition SplitN :: "string \<Rightarrow> string \<Rightarrow> int \<Rightarrow> string list" where
  "SplitN s sep n = genSplit s sep n"

section \<open>Field parameters\<close>

record fieldParams =
  key :: string
  DefaultValue :: string
  separator :: string
  kvSeparator :: string
  defaultSet :: bool
  ignored :: bool

text \<open>
  \<^verbatim>\<open>toEnvName\<close> for identifiers of ASCII letters, digits and underscores; every other
  byte is of class \<open>clNone\<close>. \<^verbatim>\<open>c.is(other)\<close> tests \<^verbatim>\<open>c&other != 0\<close>, which is
  membership of \<open>c\<close> in the classes that \<open>other\<close> combines, and false for \<open>clNone\<close>.
\<close>

datatype charClass = clNone | clLower | clUpper | clDigit | clUnderscore

definition IsLower :: "char \<Rightarrow> bool" where
  "IsLower r = (97 \<le> byte r \<and> byte r \<le> 122)"

definition IsUpper :: "char \<Rightarrow> bool" where
  "IsUpper r = (65 \<le> byte r \<and> byte r \<le> 90)"

definition IsDigit :: "char \<Rightarrow> bool" where
  "IsDigit r = (48 \<le> byte r \<and> byte r \<le> 57)"

definition ToUpper :: "char \<Rightarrow> char" where
  "ToUpper r = (if IsLower r then char_of (byte r - 32) else r)"

definition classOf :: "char \<Rightarrow> charClass" where
  "classOf r =
     (if r = CHR ''_'' then clUnderscore
      else if IsLower r then clLower
      else if IsUpper r then clUpper
      else if IsDigit r then clDigit
      else clNone)"

definition is_class :: "charClass \<Rightarrow> charClass list \<Rightarrow> bool" where
  "is_class c other = (c \<noteq> clNone \<and> c \<in> set other)"

fun toEnvName_loop :: "string \<Rightarrow> charClass \<Rightarrow> string \<Rightarrow> string" where
  "toEnvName_loop b prevClass [] = b"
| "toEnvName_loop b prevClass (r # rest) =
     (let c = classOf r
      in if c = clUnderscore \<or> c = clNone
         then (if b \<noteq> [] \<and> prevClass \<noteq> clUnderscore
               then toEnvName_loop (b @ ''_'') clUnderscore rest
               else toEnvName_loop b prevClass rest)
         else
           let nextLower = (is_class c [clUpper] \<and> (case rest of [] \<Rightarrow> False | nc # _ \<Rightarrow> IsLower nc));
               needSep = (b \<noteq> [] \<and> prevClass \<noteq> clUnderscore \<and>
                 ((is_class prevClass [clLower] \<and> is_class c [clUpper]) \<or>
                  (is_class prevClass [clUpper] \<and> is_class c [clUpper] \<and> nextLower) \<or>
                  (is_class prevClass [clLower, clUpper] \<and> is_class c [clDigit]) \<or>
                  (is_class prevClass [clDigit] \<and> is_class c [clLower, clUpper])));
               b1 = (if needSep then b @ ''_'' else b);
               b2 = (if is_class c [clDigit] then b1 @ [r] else b1 @ [ToUpper r])
           in toEnvName_loop b2 c rest)"

definition toEnvName :: "string \<Rightarrow> string" where
  "toEnvName s = (if s = [] then [] else toEnvName_loop [] clNone s)"

text \<open>
  A struct tag is the list of its key/value pairs; \<^verbatim>\<open>Tag.Lookup\<close> finds the first
  pair of a key, \<^verbatim>\<open>Tag.Get\<close> is the empty text when there is none.
\<close>

definition tagName :: string where "tagName = ''env''"
definition tagPrefix :: string where "tagPrefix = ''prefix''"
definition tagDefault :: string where "tagDefault = ''default''"
definition tagSeparator :: string where "tagSeparator = ''envSeparator''"
definition tagKVSeparator :: string where "tagKVSeparator = ''envKeyValSeparator''"

definition Tag_Lookup :: "sfield \<Rightarrow> string \<Rightarrow> string option" where
  "Tag_Lookup fld k = map_of (ftag fld) k"

definition Tag_Get :: "sfield \<Rightarrow> string \<Rightarrow> string" where
  "Tag_Get fld k = (case Tag_Lookup fld k of None \<Rightarrow> [] | Some v \<Rightarrow> v)"

definition structTagPrefix :: "string \<Rightarrow> sfield \<Rightarrow> string" where
  "structTagPrefix pfx fld = pfx @ Tag_Get fld tagPrefix"

definition tagOption :: "string \<Rightarrow> string \<times> string list" where
  "tagOption k = (case Split k '','' of [] \<Rightarrow> ([], []) | o1 # opts \<Rightarrow> (o1, opts))"

text \<open>
  \<^verbatim>\<open>parseFieldParams\<close>; \<open>None\<close> is the panic on a tag option that is not empty.
\<close>

definition parseFieldParams :: "sfield \<Rightarrow> string \<Rightarrow> fieldParams option" where
  "parseFieldParams fld pfx =
     (case tagOption (Tag_Get fld tagName) of (k0, tags) \<Rightarrow>
        let k1 = (if k0 = [] then toEnvName (fname fld) else k0);
            k2 = (if k1 \<noteq> ''-'' then pfx @ k1 else k1);
            result = \<lparr> key = k2,
                       DefaultValue = (case Tag_Lookup fld tagDefault of None \<Rightarrow> [] | Some d \<Rightarrow> d),
                       separator = (case Tag_Lookup fld tagSeparator of None \<Rightarrow> '','' | Some sp \<Rightarrow> sp),
                       kvSeparator = (case Tag_Lookup fld tagKVSeparator of None \<Rightarrow> '':'' | Some sp \<Rightarrow> sp),
                       defaultSet = (Tag_Lookup fld tagDefault \<noteq> None),
                       ignored = (k2 = ''-'') \<rparr>
        in if list_all (\<lambda>tag. tag = []) tags then Some result else None)"

section \<open>The structural decoder\<close>

text \<open>
  \<^verbatim>\<open>parseParams\<close>: the environment (a nil map has no keys), the global prefix, and
  whether an observer callback \<^verbatim>\<open>onSet\<close> is installed. What the decoder does to the
  outside is recorded as a list of events: a call of a parser (for which type, on
  which text) and a call of the observer (key, value, is-default flag).
\<close>

record parseParams =
  environment :: "string \<rightharpoonup> string"
  prefix :: string
  onSet :: bool

datatype event = ParserCall rtype string | OnSetCall string any bool

definition keyWithPrefix :: "parseParams \<Rightarrow> string \<Rightarrow> string" where
  "keyWithPrefix p k = prefix p @ k"

definition getEnv :: "parseParams \<Rightarrow> string \<Rightarrow> string option" where
  "getEnv p k = environment p (prefix p @ k)"

text \<open>A panic ends the decode; otherwise a function returns what it has done.\<close>

datatype 'a outcome = Panic | Done 'a

type_synonym setres = "val \<times> err list \<times> event list"

definition call :: "parserFunc option \<Rightarrow> string \<Rightarrow> presult" where
  "call pf raw = (case pf of None \<Rightarrow> PPanic | Some f \<Rightarrow> f raw)"

text \<open>
  \<^verbatim>\<open>reflect.ValueOf(val).Convert(typ)\<close> for the conversions the decoder asks for: to
  the same type, to an interface type the value implements, and between types of
  the same underlying type. A registered parser returns the type it is registered
  for and a built-in parser the predeclared type of the kind, so no other conversion
  is asked for unless pointers were unpacked during lookup, and then Go panics too.
  \<open>None\<close> is the panic; the result is the value to store and what
  \<^verbatim>\<open>value.Interface()\<close> gives.
\<close>

definition convert :: "externs \<Rightarrow> any \<Rightarrow> rtype \<Rightarrow> (val \<times> any) option" where
  "convert x a typ =
     (case a of
        Nil \<Rightarrow> None
      | Any t v \<Rightarrow>
          if t = typ then Some (v, Any typ v)
          else if kind_of typ = InterfaceK
            then (if implements x t typ then Some (VIface t v, Any t v) else None)
          else if underlying t = underlying typ then Some (v, Any typ v)
          else None)"

text \<open>
  \<^verbatim>\<open>Value.Set\<close> panics unless the value is assignable to the type: identical
  types, an interface the value implements, or identical underlying types of which
  one is not a defined type.
\<close>

fun defined :: "rtype \<Rightarrow> bool" where
  "defined (Basic k) = True"
| "defined (Named n u) = True"
| "defined t = False"

definition assignable :: "externs \<Rightarrow> rtype \<Rightarrow> rtype \<Rightarrow> bool" where
  "assignable x t typ =
     (t = typ \<or> (kind_of typ = InterfaceK \<and> implements x t typ) \<or>
      (underlying t = underlying typ \<and> (\<not> defined t \<or> \<not> defined typ)))"

definition stored :: "rtype \<Rightarrow> val \<Rightarrow> rtype \<Rightarrow> val" where
  "stored t v typ = (if kind_of typ = InterfaceK \<and> t \<noteq> typ then VIface t v else v)"

text \<open>
  The loop of \<^verbatim>\<open>setSlice\<close> over the parts, from index \<open>i\<close>: the errors so far,
  the result slice and the events.
\<close>

fun setSlice_loop ::
  "externs \<Rightarrow> parserFunc option \<Rightarrow> nat \<Rightarrow> rtype \<Rightarrow> nat \<Rightarrow> string list \<Rightarrow>
   err list \<Rightarrow> val list \<Rightarrow> event list \<Rightarrow> (err list \<times> val list \<times> event list) outcome" where
  "setSlice_loop x parserFunc ptrDepth itemType i [] errs result evs = Done (errs, result, evs)"
| "setSlice_loop x parserFunc ptrDepth itemType i (part # parts) errs result evs =
     (case call parserFunc part of
        PPanic \<Rightarrow> Panic
      | PRet r e \<Rightarrow>
          let errs1 = (case e of None \<Rightarrow> errs | Some er \<Rightarrow> errs @ [IndexError i er]);
              evs1 = evs @ [ParserCall itemType part]
          in if errs1 \<noteq> []
             then setSlice_loop x parserFunc ptrDepth itemType (i + 1) parts errs1 result evs1
             else (case r of
                     Nil \<Rightarrow> Panic
                   | Any t v \<Rightarrow>
                       (case ptr_wrap ptrDepth t v of (t1, v1) \<Rightarrow>
                          if assignable x t1 itemType
                          then setSlice_loop x parserFunc ptrDepth itemType (i + 1) parts errs1
                                 (result[i := stored t1 v1 itemType]) evs1
                          else Panic)))"

definition setSlice ::
  "externs \<Rightarrow> rtype \<Rightarrow> val \<Rightarrow> string \<Rightarrow> fieldParams \<Rightarrow> parseParams \<Rightarrow> setres outcome" where
  "setSlice x ft field value f p =
     (if kind_of ft \<noteq> SliceK then Panic
      else case elem ft of
        None \<Rightarrow> Panic
      | Some itemType \<Rightarrow>
          (case GetParseFunc x itemType of
             NotFound \<Rightarrow> Panic
           | ElemPanic \<Rightarrow> Panic
           | Found parserFunc ptrDepth \<Rightarrow>
               let parts = Split value (separator f)
               in case setSlice_loop x parserFunc ptrDepth itemType 0 parts []
                         (replicate (length parts) (zero itemType)) [] of
                    Panic \<Rightarrow> Panic
                  | Done (errs, result, evs) \<Rightarrow>
                      (case errs of
                         [] \<Rightarrow> Done (VSlice (Some result), [], evs)
                       | [e] \<Rightarrow> Done (field, [FieldError (keyWithPrefix p (key f)) ft e], evs)
                       | _ \<Rightarrow> Done (field, [FieldError (keyWithPrefix p (key f)) ft (Joined errs)], evs))))"

text \<open>
  \<^verbatim>\<open>setMap\<close>. \<^verbatim>\<open>SetMapIndex\<close> replaces the entry of a key that is present. The
  loop stops at an entry that \<^verbatim>\<open>SplitN\<close> does not cut in two: its first result is
  that entry.
\<close>

fun SetMapIndex :: "(val \<times> val) list \<Rightarrow> val \<Rightarrow> val \<Rightarrow> (val \<times> val) list" where
  "SetMapIndex [] k v = [(k, v)]"
| "SetMapIndex ((k', v') # m) k v = (if k' = k then (k, v) # m else (k', v') # SetMapIndex m k v)"

fun map_key :: "rtype \<Rightarrow> rtype option" where
  "map_key (Named n u) = map_key u"
| "map_key (MapOf k v) = Some k"
| "map_key t = None"

fun setMap_loop ::
  "externs \<Rightarrow> parserFunc option \<Rightarrow> parserFunc option \<Rightarrow> rtype \<Rightarrow> rtype \<Rightarrow> string \<Rightarrow>
   string list \<Rightarrow> err list \<Rightarrow> (val \<times> val) list \<Rightarrow> event list \<Rightarrow>
   (string option \<times> err list \<times> (val \<times> val) list \<times> event list) outcome" where
  "setMap_loop x keyParserFunc elemParserFunc keyType elemType kvsep [] errs result evs =
     Done (None, errs, result, evs)"
| "setMap_loop x keyParserFunc elemParserFunc keyType elemType kvsep (part # parts) errs result evs =
     (case SplitN part kvsep 2 of
        [k, e] \<Rightarrow>
          (case call keyParserFunc k of
             PPanic \<Rightarrow> Panic
           | PRet kv (Some er) \<Rightarrow>
               setMap_loop x keyParserFunc elemParserFunc keyType elemType kvsep parts
                 (errs @ [KeyError k er]) result (evs @ [ParserCall keyType k])
           | PRet kv None \<Rightarrow>
               (case call elemParserFunc e of
                  PPanic \<Rightarrow> Panic
                | PRet ev (Some er) \<Rightarrow>
                    setMap_loop x keyParserFunc elemParserFunc keyType elemType kvsep parts
                      (errs @ [ValueError e er]) result
                      (evs @ [ParserCall keyType k, ParserCall elemType e])
                | PRet ev None \<Rightarrow>
                    (case (convert x kv keyType, convert x ev elemType) of
                       (Some (kval, _), Some (eval, _)) \<Rightarrow>
                         setMap_loop x keyParserFunc elemParserFunc keyType elemType kvsep parts
                           errs (SetMapIndex result kval eval)
                           (evs @ [ParserCall keyType k, ParserCall elemType e])
                     | _ \<Rightarrow> Panic)))
      | _ \<Rightarrow> Done (Some part, errs, result, evs))"

definition setMap ::
  "externs \<Rightarrow> rtype \<Rightarrow> val \<Rightarrow> string \<Rightarrow> fieldParams \<Rightarrow> parseParams \<Rightarrow> setres outcome" where
  "setMap x ft field value f p =
     (let parts = Split value (separator f)
      in case (map_key ft, elem ft) of
           (Some keyType, Some elemType) \<Rightarrow>
             (case GetParseFunc x keyType of
                NotFound \<Rightarrow> Panic
              | ElemPanic \<Rightarrow> Panic
              | Found keyParserFunc keyPtrDepth \<Rightarrow>
                  (case GetParseFunc x elemType of
                     NotFound \<Rightarrow> Panic
                   | ElemPanic \<Rightarrow> Panic
                   | Found elemParserFunc elemPtrDepth \<Rightarrow>
                       (case setMap_loop x keyParserFunc elemParserFunc keyType elemType
                               (kvSeparator f) parts [] [] [] of
                          Panic \<Rightarrow> Panic
                        | Done (Some part, errs, result, evs) \<Rightarrow>
                            Done (field, [FieldError (keyWithPrefix p (key f)) ft
                                            (InvalidMapItemFormatError part (kvSeparator f))], evs)
                        | Done (None, errs, result, evs) \<Rightarrow>
                            (case errs of
                               [] \<Rightarrow> Done (VMap (Some result), [], evs)
                             | [e] \<Rightarrow> Done (field, [FieldError (keyWithPrefix p (key f)) ft e], evs)
                             | _ \<Rightarrow> Done (field, [FieldError (keyWithPrefix p (key f)) ft (Joined errs)], evs)))))
         | _ \<Rightarrow> Panic)"


text \<open>
  \<^verbatim>\<open>setValue\<close>, \<^verbatim>\<open>setStruct\<close> and \<^verbatim>\<open>setStructField\<close>. A function takes the type
  and the current value of the variable that the \<^verbatim>\<open>reflect.Value\<close> refers to and
  returns the value it holds afterwards, the field errors and the events. A value
  that has not the shape of its type is read as the zero value.
\<close>

definition deref :: "rtype \<Rightarrow> val \<Rightarrow> rtype \<times> val" where
  "deref t v =
     (if kind_of t = PointerK
      then (case elem t of
              None \<Rightarrow> (t, v)
            | Some u \<Rightarrow> (u, case v of VPtr (Some w) \<Rightarrow> w | _ \<Rightarrow> zero u))
      else (t, v))"

definition is_nil :: "val \<Rightarrow> bool" where
  "is_nil v = (case v of VPtr (Some w) \<Rightarrow> False | _ \<Rightarrow> True)"

definition reref :: "rtype \<Rightarrow> val \<Rightarrow> val" where
  "reref t w = (if kind_of t = PointerK \<and> elem t \<noteq> None then VPtr (Some w) else w)"

definition map_value :: "(val \<Rightarrow> val) \<Rightarrow> setres outcome \<Rightarrow> setres outcome" where
  "map_value g r = (case r of Panic \<Rightarrow> Panic | Done (v, errs, evs) \<Rightarrow> Done (g v, errs, evs))"

definition struct_fields :: "rtype \<Rightarrow> sfield list option" where
  "struct_fields t = (case underlying t of StructOf fs \<Rightarrow> Some fs | _ \<Rightarrow> None)"

lemma size_deref: "size (fst (deref t v)) \<le> size t"
  by (auto simp: deref_def split: option.splits dest: size_elem)

lemma size_underlying: "size (underlying t) \<le> size t"
  by (induction t rule: underlying.induct) auto

lemma size_struct_fields: "struct_fields t = Some fs \<Longrightarrow> size_list size fs < size t"
  using size_underlying[of t] by (auto simp: struct_fields_def split: rtype.splits)

lemma size_ftype: "size (ftype fld) < size fld"
  by (cases fld) simp

lemma size_elem_ftype: "elem (ftype fld) = Some u \<Longrightarrow> size u < size fld"
  using size_elem[of "ftype fld" u] size_ftype[of fld] by simp

function
  setValue :: "externs \<Rightarrow> parseParams \<Rightarrow> rtype \<Rightarrow> val \<Rightarrow> fieldParams \<Rightarrow> string \<Rightarrow> setres outcome"
  and setStruct :: "externs \<Rightarrow> parseParams \<Rightarrow> rtype \<Rightarrow> val \<Rightarrow> string \<Rightarrow> setres outcome"
  and setStruct_loop ::
    "externs \<Rightarrow> parseParams \<Rightarrow> string \<Rightarrow> sfield list \<Rightarrow> val list \<Rightarrow>
     (val list \<times> err list \<times> event list) outcome"
  and setStructField :: "externs \<Rightarrow> parseParams \<Rightarrow> sfield \<Rightarrow> val \<Rightarrow> string \<Rightarrow> setres outcome"
where
  "setValue x p t v f pfx =
     (let ev = getEnv p (key f);
          unset = (case ev of None \<Rightarrow> True | Some s \<Rightarrow> s = [])
      in if unset \<and> \<not> defaultSet f
         then Done (v, [FieldError (keyWithPrefix p (key f)) t ErrValueNotSet], [])
         else
           let value = (case ev of None \<Rightarrow> DefaultValue f
                        | Some s \<Rightarrow> if s = [] then DefaultValue f else s);
               usingDefault = unset;
               typ = fst (deref t v);
               v1 = snd (deref t v)
           in case GetParseFunc x typ of
                ElemPanic \<Rightarrow> Panic
              | Found parserFunc ptrDepth \<Rightarrow>
                  (case call parserFunc value of
                     PPanic \<Rightarrow> Panic
                   | PRet a (Some e) \<Rightarrow>
                       Done (reref t v1, [FieldError (keyWithPrefix p (key f)) typ e],
                             [ParserCall typ value])
                   | PRet a None \<Rightarrow>
                       (case convert x a typ of
                          None \<Rightarrow> Panic
                        | Some (w, iface) \<Rightarrow>
                            Done (reref t w, [],
                                  ParserCall typ value #
                                  (if onSet p then [OnSetCall (keyWithPrefix p (key f)) iface usingDefault]
                                   else []))))
              | NotFound \<Rightarrow>
                  if kind_of typ = StructK then map_value (reref t) (setStruct x p typ v1 pfx)
                  else if kind_of typ = SliceK then map_value (reref t) (setSlice x typ v1 value f p)
                  else if kind_of typ = MapK then map_value (reref t) (setMap x typ v1 value f p)
                  else Panic)"
| "setStruct x p t v pfx =
     (case struct_fields t of
        None \<Rightarrow> Panic
      | Some fs \<Rightarrow>
          (case setStruct_loop x p pfx fs (case v of VStruct vs \<Rightarrow> vs | _ \<Rightarrow> []) of
             Panic \<Rightarrow> Panic
           | Done (vs, errs, evs) \<Rightarrow> Done (VStruct vs, errs, evs)))"
| "setStruct_loop x p pfx [] vs = Done ([], [], [])"
| "setStruct_loop x p pfx (fld # fs) vs =
     (case setStructField x p fld (case vs of [] \<Rightarrow> zero_field fld | v # _ \<Rightarrow> v)
             (structTagPrefix pfx fld) of
        Panic \<Rightarrow> Panic
      | Done (v1, errs1, evs1) \<Rightarrow>
          (case setStruct_loop x p pfx fs (tl vs) of
             Panic \<Rightarrow> Panic
           | Done (vs2, errs2, evs2) \<Rightarrow> Done (v1 # vs2, errs1 @ errs2, evs1 @ evs2)))"
| "setStructField x p fld v pfx =
     (if \<not> exported fld then Done (v, [], [])
      else case parseFieldParams fld pfx of
        None \<Rightarrow> Panic
      | Some params \<Rightarrow>
          if ignored params then Done (v, [], [])
          else if kind_of (ftype fld) = PointerK \<and> is_nil v
            then (case elem (ftype fld) of
                    None \<Rightarrow> Panic
                  | Some u \<Rightarrow>
                      if kind_of u = StructK
                      then map_value (\<lambda>w. VPtr (Some w)) (setValue x p u (zero u) params pfx)
                      else setValue x p (ftype fld) (VPtr (Some (zero u))) params pfx)
          else setValue x p (ftype fld) v params pfx)"
  by pat_completeness auto


termination
proof (relation "measure (\<lambda>s. case s of
          Inl (Inl (x, p, t, v, f, pfx)) \<Rightarrow> 2 * size t + 1
        | Inl (Inr (x, p, t, v, pfx)) \<Rightarrow> 2 * size t
        | Inr (Inl (x, p, pfx, fs, vs)) \<Rightarrow> 2 * size_list size fs + 1
        | Inr (Inr (x, p, fld, v, pfx)) \<Rightarrow> 2 * size fld + 2)", goal_cases)
  case 1
  show ?case by simp
next
  case 2
  then show ?case using size_deref by (auto intro: le_imp_less_Suc)
next
  case 3
  then show ?case using size_struct_fields by fastforce
next
  case 4
  show ?case by simp
next
  case 5
  show ?case by simp
next
  case 6
  then show ?case using size_elem_ftype by fastforce
next
  case (7 x p fld v pfx params u)
  show ?case using size_ftype[of fld] by simp
next
  case (8 x p fld v pfx params)
  show ?case using size_ftype[of fld] by simp
qed


text \<open>
  \<^verbatim>\<open>parseInternal\<close> takes a pointer to a struct; the result is what the pointer
  refers to afterwards, the error returned and the events. \<^verbatim>\<open>errors.Join\<close> keeps
  every error that is not nil.
\<close>

definition errors_Join :: "err option list \<Rightarrow> err option" where
  "errors_Join errs =
     (if list_all (\<lambda>e. e = None) errs then None
      else Some (Joined (concat (map (\<lambda>e. case e of None \<Rightarrow> [] | Some e' \<Rightarrow> [e']) errs))))"

definition parseInternal ::
  "externs \<Rightarrow> any \<Rightarrow> parseParams \<Rightarrow> string \<Rightarrow> (any \<times> err option \<times> event list) outcome" where
  "parseInternal x a opts pfx =
     (case a of
        Nil \<Rightarrow> Done (a, Some ErrNotStructPtr, [])
      | Any t v \<Rightarrow>
          if kind_of t \<noteq> PointerK then Done (a, Some ErrNotStructPtr, [])
          else (case (elem t, v) of
                  (Some u, VPtr (Some w)) \<Rightarrow>
                    if kind_of u \<noteq> StructK then Done (a, Some ErrNotStructPtr, [])
                    else (case setStruct x opts u w pfx of
                            Panic \<Rightarrow> Panic
                          | Done (w1, fieldErrs, evs) \<Rightarrow>
                              Done (Any t (VPtr (Some w1)),
                                    (case fieldErrs of
                                       [] \<Rightarrow> None
                                     | [e] \<Rightarrow> Some e
                                     | _ \<Rightarrow> errors_Join (map Some fieldErrs)),
                                    evs))
                | _ \<Rightarrow> Done (a, Some ErrNotStructPtr, [])))"

definition Parse :: "externs \<Rightarrow> any \<Rightarrow> parseParams \<Rightarrow> (any \<times> err option \<times> event list) outcome" where
  "Parse x a p = parseInternal x a p []"

section \<open>The job scheduler\<close>

text \<open>
  \<^verbatim>\<open>errors.Is\<close> for a sentinel target: the error is the target, or an error of its
  \<^verbatim>\<open>Unwrap\<close> tree is. \<^verbatim>\<open>UnmarshalFuncError\<close> has no \<^verbatim>\<open>Unwrap\<close> method.
\<close>

fun errors_Is :: "err \<Rightarrow> err \<Rightarrow> bool" where
  "errors_Is (NumError f s e) target = (NumError f s e = target \<or> errors_Is e target)"
| "errors_Is (FieldError k t e) target = (FieldError k t e = target \<or> errors_Is e target)"
| "errors_Is (Wrapped m e) target = (Wrapped m e = target \<or> errors_Is e target)"
| "errors_Is (IndexError i e) target = (IndexError i e = target \<or> errors_Is e target)"
| "errors_Is (KeyError k e) target = (KeyError k e = target \<or> errors_Is e target)"
| "errors_Is (ValueError v e) target = (ValueError v e = target \<or> errors_Is e target)"
| "errors_Is (Joined es) target = (Joined es = target \<or> list_ex (\<lambda>e. errors_Is e target) es)"
| "errors_Is e target = (e = target)"

definition omitContextErr :: "err option \<Rightarrow> err option" where
  "omitContextErr err =
     (case err of
        None \<Rightarrow> None
      | Some e \<Rightarrow> if errors_Is e Canceled \<or> errors_Is e DeadlineExceeded then None else Some e)"

text \<open>
  \<^verbatim>\<open>RunJobs\<close> as a transition system. A job is given by what it returns when it
  returns, which may depend on whether its context is cancelled by then. The main
  goroutine adds the number of jobs to the wait group, starts one goroutine per job
  and waits for the wait group; a goroutine goes through the points of its body:
  the call of the job, the append to \<^verbatim>\<open>errs\<close> under the mutex, \<^verbatim>\<open>cancel()\<close> and
  \<^verbatim>\<open>wg.Done()\<close>. The caller may cancel the parent context at any time.
\<close>

type_synonym job = "bool \<Rightarrow> err option"

datatype pc = NotStarted | InJob | AtAppend err | AtCancel | AtDone | Exited

record sched =
  pcs :: "pc list"
  returned :: "err option option list"
  errs :: "err list"
  cancelled :: bool
  wg :: int
  retval :: "err option option"

definition sched_init :: "job list \<Rightarrow> sched" where
  "sched_init jobs =
     \<lparr> pcs = replicate (length jobs) NotStarted,
       returned = replicate (length jobs) None,
       errs = [], cancelled = False, wg = int (length jobs), retval = None \<rparr>"

inductive sched_step :: "job list \<Rightarrow> sched \<Rightarrow> sched \<Rightarrow> bool" for jobs :: "job list" where
  go_job: "\<lbrakk> retval s = None; i < length jobs; pcs s ! i = NotStarted; \<forall>j < i. pcs s ! j \<noteq> NotStarted \<rbrakk>
       \<Longrightarrow> sched_step jobs s (s\<lparr> pcs := (pcs s)[i := InJob] \<rparr>)"
| job_returns: "\<lbrakk> i < length jobs; pcs s ! i = InJob; r = (jobs ! i) (cancelled s) \<rbrakk>
       \<Longrightarrow> sched_step jobs s
             (s\<lparr> pcs := (pcs s)[i := (case omitContextErr r of None \<Rightarrow> AtDone | Some e \<Rightarrow> AtAppend e)],
                returned := (returned s)[i := Some r] \<rparr>)"
| append: "\<lbrakk> i < length jobs; pcs s ! i = AtAppend e \<rbrakk>
       \<Longrightarrow> sched_step jobs s (s\<lparr> pcs := (pcs s)[i := AtCancel], errs := errs s @ [e] \<rparr>)"
| cancel: "\<lbrakk> i < length jobs; pcs s ! i = AtCancel \<rbrakk>
       \<Longrightarrow> sched_step jobs s (s\<lparr> pcs := (pcs s)[i := AtDone], cancelled := True \<rparr>)"
| wg_done: "\<lbrakk> i < length jobs; pcs s ! i = AtDone \<rbrakk>
       \<Longrightarrow> sched_step jobs s (s\<lparr> pcs := (pcs s)[i := Exited], wg := wg s - 1 \<rparr>)"
| parent_cancel: "sched_step jobs s (s\<lparr> cancelled := True \<rparr>)"
| wait_returns: "\<lbrakk> retval s = None; \<forall>j < length jobs. pcs s ! j \<noteq> NotStarted; wg s = 0 \<rbrakk>
       \<Longrightarrow> sched_step jobs s (s\<lparr> retval := Some (errors_Join (map Some (errs s))), cancelled := True \<rparr>)"

inductive sched_reach :: "job list \<Rightarrow> sched \<Rightarrow> bool" for jobs :: "job list" where
  init: "sched_reach jobs (sched_init jobs)"
| step: "\<lbrakk> sched_reach jobs s; sched_step jobs s s' \<rbrakk> \<Longrightarrow> sched_reach jobs s'"

section \<open>The lifecycle phases of Run\<close>

text \<open>
  The part of \<^verbatim>\<open>Run\<close> after the configuration is decoded: Configure, Acquire, the
  action, Shutdown. A resource parameter is given by what its three methods return.
  The metrics server goes first in every phase. It exists only when the configuration
  has a metrics address: otherwise \<^verbatim>\<open>metricServer\<close> stays nil, and
  \<^verbatim>\<open>metricServer.configure\<close>, which stores the logger through its receiver, panics
  before any other call is made. The result is the sequence of calls made and the
  exit code; \<open>code\<close> is what the action returns.
\<close>

record envParam =
  Configure :: "err option"
  Acquire :: "err option"
  Shutdown :: "err option"

datatype phase = ConfigureP | AcquireP | ShutdownP

datatype call = MetricServer phase | Param phase nat | Action

definition wrap_metric :: "phase \<Rightarrow> err \<Rightarrow> err" where
  "wrap_metric ph e =
     (case ph of
        ConfigureP \<Rightarrow> Wrapped ''configuring metric server'' e
      | AcquireP \<Rightarrow> Wrapped ''acquiring metric server'' e
      | ShutdownP \<Rightarrow> Wrapped ''shutting down metric server'' e)"

definition wrap_param :: "phase \<Rightarrow> err \<Rightarrow> err" where
  "wrap_param ph e = (case ph of AcquireP \<Rightarrow> Wrapped ''acquiring'' e | _ \<Rightarrow> e)"

fun phase_loop :: "phase \<Rightarrow> (envParam \<Rightarrow> err option) \<Rightarrow> nat \<Rightarrow> envParam list \<Rightarrow> err list \<times> call list" where
  "phase_loop ph m i [] = ([], [])"
| "phase_loop ph m i (v # vs) =
     (case phase_loop ph m (i + 1) vs of (es, cs) \<Rightarrow>
        ((case m v of None \<Rightarrow> es | Some e \<Rightarrow> wrap_param ph e # es), Param ph i # cs))"

definition run_phase :: "phase \<Rightarrow> (envParam \<Rightarrow> err option) \<Rightarrow> envParam \<Rightarrow> envParam list \<Rightarrow> err list \<times> call list" where
  "run_phase ph m metricServer configurations =
     (case phase_loop ph m 0 configurations of (es, cs) \<Rightarrow>
        ((case m metricServer of None \<Rightarrow> es | Some e \<Rightarrow> wrap_metric ph e # es), MetricServer ph # cs))"

definition Run :: "envParam option \<Rightarrow> envParam list \<Rightarrow> nat \<Rightarrow> (call list \<times> nat) outcome" where
  "Run metricServer configurations code =
     (case metricServer of
        None \<Rightarrow> Panic
      | Some ms \<Rightarrow>
          Done
            (case run_phase ConfigureP Configure ms configurations of (configErrs, cs1) \<Rightarrow>
               if length configErrs > 0 then (cs1, 1)
               else case run_phase AcquireP Acquire ms configurations of (acquireErrs, cs2) \<Rightarrow>
                 if length acquireErrs > 0 then (cs1 @ cs2, 1)
                 else case run_phase ShutdownP Shutdown ms configurations of (shutdownErrs, cs3) \<Rightarrow>
                   if length shutdownErrs > 0 then (cs1 @ cs2 @ [Action] @ cs3, 1)
                   else (cs1 @ cs2 @ [Action] @ cs3, code)))"

section \<open>Notions used in the statements\<close>

text \<open>
  A decimal numeral is a non-empty text of digits; \<open>digits_val\<close> is the number it
  denotes.
\<close>

fun digits_acc :: "nat \<Rightarrow> string \<Rightarrow> nat" where
  "digits_acc n [] = n"
| "digits_acc n (c # cs) = digits_acc (n * 10 + (byte c - 48)) cs"

definition digits_val :: "string \<Rightarrow> nat" where
  "digits_val ds = digits_acc 0 ds"

definition is_decimal :: "string \<Rightarrow> bool" where
  "is_decimal ds = (ds \<noteq> [] \<and> list_all IsDigit ds)"

definition signed_val :: "string \<Rightarrow> string \<Rightarrow> int" where
  "signed_val sg ds = (if sg = ''-'' then - int (digits_val ds) else int (digits_val ds))"

definition no_externs :: externs where
  "no_externs = \<lparr> parseFloat = (\<lambda>s n. (VFloat s, None)), envRegistry = (\<lambda>t. None),
      valueUnmarshalText = (\<lambda>t. None), ptrUnmarshalText = (\<lambda>t. None),
      implements = (\<lambda>a b. False) \<rparr>"

definition field_N :: fieldParams where
  "field_N = \<lparr> key = ''N'', DefaultValue = [], separator = '','', kvSeparator = '':'',
               defaultSet = False, ignored = False \<rparr>"

definition env_N :: "string \<Rightarrow> parseParams" where
  "env_N s = \<lparr> environment = [''N'' \<mapsto> s], prefix = [], onSet = True \<rparr>"

definition example_config :: rtype where
  "example_config = StructOf
     [SField ''Port'' True [(''env'', ''PORT'')] (Basic IntK),
      SField ''Host'' True [(''env'', ''HOST''), (''default'', ''0.0.0.0'')] (Basic StringK)]"

definition example_env :: "(string \<rightharpoonup> string) \<Rightarrow> parseParams" where
  "example_env e = \<lparr> environment = e, prefix = [], onSet = True \<rparr>"

text \<open>A record type that nothing decodes as a whole, and the pointer to it.\<close>

definition plain_struct :: rtype where
  "plain_struct = StructOf [SField ''A'' True [(''env'', ''A'')] (Basic StringK)]"



text \<open>
  A type at pointer depth \<open>n\<close> over a base type, and a value boxed in \<open>n\<close> pointers.
\<close>

fun ptrN :: "nat \<Rightarrow> rtype \<Rightarrow> rtype" where
  "ptrN 0 t = t"
| "ptrN (Suc n) t = PointerTo (ptrN n t)"

fun wrapN :: "nat \<Rightarrow> val \<Rightarrow> val" where
  "wrapN 0 v = v"
| "wrapN (Suc n) v = VPtr (Some (wrapN n v))"

text \<open>
  A type that declares \<^verbatim>\<open>UnmarshalText\<close> with a value receiver and accepts every text:
  \<^verbatim>\<open>type Level string\<close>, \<^verbatim>\<open>func (l Level) UnmarshalText(text []byte) error\<close>.
\<close>

definition Level :: rtype where
  "Level = Named ''Level'' (Basic StringK)"

definition level_externs :: externs where
  "level_externs = no_externs \<lparr> valueUnmarshalText := (\<lambda>t. if t = Level then Some (\<lambda>raw. None) else None) \<rparr>"

text \<open>
  The calls of one lifecycle phase on \<open>n\<close> parameters, in discovery order, the calls
  made by a run that returned, and two resource parameters: one whose methods all
  succeed and one whose Acquire fails.
\<close>

definition phase_calls :: "phase \<Rightarrow> nat \<Rightarrow> call list" where
  "phase_calls ph n = MetricServer ph # map (Param ph) [0..<n]"

definition failed :: "(envParam \<Rightarrow> err option) \<Rightarrow> envParam \<Rightarrow> envParam list \<Rightarrow> bool" where
  "failed m metricServer configurations =
     (m metricServer \<noteq> None \<or> list_ex (\<lambda>v. m v \<noteq> None) configurations)"

fun calls_made :: "(call list \<times> nat) outcome \<Rightarrow> call list" where
  "calls_made Panic = []"
| "calls_made (Done r) = fst r"

definition param_ok :: envParam where
  "param_ok = \<lparr> Configure = None, Acquire = None, Shutdown = None \<rparr>"

definition param_bad :: envParam where
  "param_bad = \<lparr> Configure = None, Acquire = Some (Opaque ''address already in use''), Shutdown = None \<rparr>"

text \<open>
  What each field of a record gives when it is decoded on its own, and the
  aggregation of field errors: none, the one error itself, or all of them joined.
\<close>

definition field_results ::
  "externs \<Rightarrow> parseParams \<Rightarrow> string \<Rightarrow> sfield list \<Rightarrow> val list \<Rightarrow> setres outcome list" where
  "field_results x p pfx fs vs =
     map (\<lambda>(fld, v). setStructField x p fld v (structTagPrefix pfx fld)) (zip fs vs)"

fun value_of :: "setres outcome \<Rightarrow> val" where
  "value_of Panic = VNil"
| "value_of (Done (v, es, evs)) = v"

fun errs_of :: "setres outcome \<Rightarrow> err list" where
  "errs_of Panic = []"
| "errs_of (Done (v, es, evs)) = es"

fun events_of :: "setres outcome \<Rightarrow> event list" where
  "events_of Panic = []"
| "events_of (Done (v, es, evs)) = evs"

definition aggregate :: "err list \<Rightarrow> err option" where
  "aggregate es = (case es of [] \<Rightarrow> None | [e] \<Rightarrow> Some e | _ \<Rightarrow> Some (Joined es))"

definition two_ints :: rtype where
  "two_ints = StructOf
     [SField ''A'' True [(''env'', ''A'')] (Basic IntK),
      SField ''B'' True [(''env'', ''B'')] (Basic IntK)]"

text \<open>
  The failures of the elements of a sequence field: for every part the element parser
  rejects, its error under the part's index. A parser is fit for an element type if
  it never panics and what it returns without error can be stored in the sequence
  after pointer restoration.
\<close>

fun slice_failures :: "parserFunc option \<Rightarrow> nat \<Rightarrow> string list \<Rightarrow> err list" where
  "slice_failures pf i [] = []"
| "slice_failures pf i (part # parts) =
     (case call pf part of
        PRet r (Some e) \<Rightarrow> IndexError i e # slice_failures pf (Suc i) parts
      | _ \<Rightarrow> slice_failures pf (Suc i) parts)"

definition fit_for_element :: "externs \<Rightarrow> parserFunc option \<Rightarrow> nat \<Rightarrow> rtype \<Rightarrow> string \<Rightarrow> bool" where
  "fit_for_element x pf depth itemType part =
     (case call pf part of
        PPanic \<Rightarrow> False
      | PRet r (Some e) \<Rightarrow> True
      | PRet Nil None \<Rightarrow> False
      | PRet (Any t v) None \<Rightarrow> assignable x (fst (ptr_wrap depth t v)) itemType)"

definition ints_field :: fieldParams where
  "ints_field = \<lparr> key = ''INTS'', DefaultValue = [], separator = '','', kvSeparator = '':'',
                  defaultSet = False, ignored = False \<rparr>"

text \<open>
  For an associative field: an entry is well formed if the key/value separator cuts
  it in two. The failures of well-formed entries are the error of the key parser
  or, when the key is accepted, of the value parser; the calls are the parser calls
  these entries give rise to. Parsers are fit for an entry if they do not panic and
  what they return without error converts to the key and value types.
\<close>

definition well_formed :: "string \<Rightarrow> string \<Rightarrow> bool" where
  "well_formed kvsep part = (length (SplitN part kvsep 2) = 2)"

definition entry_failure :: "parserFunc option \<Rightarrow> parserFunc option \<Rightarrow> string \<Rightarrow> string \<Rightarrow> err list" where
  "entry_failure kp ep kvsep part =
     (case SplitN part kvsep 2 of
        [k, e] \<Rightarrow>
          (case call kp k of
             PRet kv (Some er) \<Rightarrow> [KeyError k er]
           | PRet kv None \<Rightarrow>
               (case call ep e of PRet ev (Some er) \<Rightarrow> [ValueError e er] | _ \<Rightarrow> [])
           | PPanic \<Rightarrow> [])
      | _ \<Rightarrow> [])"

definition entry_calls ::
  "parserFunc option \<Rightarrow> rtype \<Rightarrow> rtype \<Rightarrow> string \<Rightarrow> string \<Rightarrow> event list" where
  "entry_calls kp keyType elemType kvsep part =
     (case SplitN part kvsep 2 of
        [k, e] \<Rightarrow>
          (case call kp k of
             PRet kv None \<Rightarrow> [ParserCall keyType k, ParserCall elemType e]
           | _ \<Rightarrow> [ParserCall keyType k])
      | _ \<Rightarrow> [])"

definition fit_for_entry ::
  "externs \<Rightarrow> parserFunc option \<Rightarrow> parserFunc option \<Rightarrow> rtype \<Rightarrow> rtype \<Rightarrow> string \<Rightarrow> string \<Rightarrow> bool" where
  "fit_for_entry x kp ep keyType elemType kvsep part =
     (case SplitN part kvsep 2 of
        [k, e] \<Rightarrow>
          (case call kp k of
             PPanic \<Rightarrow> False
           | PRet kv (Some er) \<Rightarrow> True
           | PRet kv None \<Rightarrow>
               (case call ep e of
                  PPanic \<Rightarrow> False
                | PRet ev (Some er) \<Rightarrow> True
                | PRet ev None \<Rightarrow> convert x kv keyType \<noteq> None \<and> convert x ev elemType \<noteq> None))
      | _ \<Rightarrow> True)"

definition map_field :: fieldParams where
  "map_field = \<lparr> key = ''MAP'', DefaultValue = [], separator = '','', kvSeparator = '':'',
                 defaultSet = False, ignored = False \<rparr>"

text \<open>
  What a job that has returned contributes to the result of \<^verbatim>\<open>RunJobs\<close>: its error,
  unless it returned nil or a cancellation-class error. The invariant of the
  scheduler relates the program points of the goroutines to the wait group, to the
  list \<^verbatim>\<open>errs\<close> and to what the jobs returned.
\<close>

definition reported :: "err option option \<Rightarrow> err list" where
  "reported ro =
     (case ro of
        None \<Rightarrow> []
      | Some r \<Rightarrow> (case omitContextErr r of None \<Rightarrow> [] | Some e \<Rightarrow> [e]))"

definition appended :: "pc \<Rightarrow> bool" where
  "appended c = (c = AtCancel \<or> c = AtDone \<or> c = Exited)"

definition sched_inv :: "job list \<Rightarrow> sched \<Rightarrow> bool" where
  "sched_inv jobs s =
     (length (pcs s) = length jobs \<and> length (returned s) = length jobs \<and>
      wg s = (\<Sum>i<length jobs. if pcs s ! i = Exited then 0 else 1) \<and>
      mset (errs s) =
        (\<Sum>i<length jobs. if appended (pcs s ! i) then mset (reported (returned s ! i)) else {#}) \<and>
      (\<forall>i<length jobs.
         (\<forall>e. pcs s ! i = AtAppend e \<longrightarrow> reported (returned s ! i) = [e]) \<and>
         ((pcs s ! i = NotStarted \<or> pcs s ! i = InJob) \<longleftrightarrow> returned s ! i = None) \<and>
         (\<forall>r. returned s ! i = Some r \<longrightarrow> (\<exists>c. r = (jobs ! i) c))) \<and>
      (\<forall>r. retval s = Some r \<longrightarrow>
         (\<forall>i<length jobs. pcs s ! i = Exited) \<and> r = errors_Join (map Some (errs s))))"

text \<open>
  The number of steps a goroutine still has to make from a program point.
\<close>

fun steps_left :: "pc \<Rightarrow> nat" where
  "steps_left NotStarted = 5"
| "steps_left InJob = 4"
| "steps_left (AtAppend e) = 3"
| "steps_left AtCancel = 2"
| "steps_left AtDone = 1"
| "steps_left Exited = 0"

text \<open>
  The notions of the statement about \<^verbatim>\<open>RunJobs\<close>. A cancellation-class error is one
  that \<^verbatim>\<open>errors.Is\<close> matches with \<^verbatim>\<open>context.Canceled\<close> or with
  \<^verbatim>\<open>context.DeadlineExceeded\<close>; the failures of a run are the errors the jobs returned
  that are not of that class, in the order of the jobs.
\<close>

definition cancellation_class :: "err \<Rightarrow> bool" where
  "cancellation_class e = (errors_Is e Canceled \<or> errors_Is e DeadlineExceeded)"

definition job_failures :: "err option option list \<Rightarrow> err list" where
  "job_failures rs =
     concat (map (\<lambda>ro. case ro of
                          Some (Some e) \<Rightarrow> if cancellation_class e then [] else [e]
                        | _ \<Rightarrow> []) rs)"

text \<open>
  A run of two jobs: the first fails with an error of its own; the second returns
  \<^verbatim>\<open>context.Canceled\<close> if its context is cancelled when it returns, and nil otherwise.
  \<open>two_jobs_run\<close> lists the states of the schedule in which the first job fails and
  cancels the context before the second one returns.
\<close>

definition two_jobs :: "job list" where
  "two_jobs = [\<lambda>c. Some (Opaque ''disk full''), \<lambda>c. if c then Some Canceled else None]"

definition sched_state ::
  "pc list \<Rightarrow> err option option list \<Rightarrow> err list \<Rightarrow> bool \<Rightarrow> int \<Rightarrow> err option option \<Rightarrow> sched" where
  "sched_state ps rs es c w rv =
     \<lparr> pcs = ps, returned = rs, errs = es, cancelled = c, wg = w, retval = rv \<rparr>"

definition two_jobs_run :: "sched list" where
  "two_jobs_run =
     (let e = Opaque ''disk full''; a = Some (Some e); b = Some (Some Canceled) in
      [sched_state [NotStarted, NotStarted] [None, None] [] False 2 None,
       sched_state [InJob, NotStarted] [None, None] [] False 2 None,
       sched_state [InJob, InJob] [None, None] [] False 2 None,
       sched_state [AtAppend e, InJob] [a, None] [] False 2 None,
       sched_state [AtCancel, InJob] [a, None] [e] False 2 None,
       sched_state [AtDone, InJob] [a, None] [e] True 2 None,
       sched_state [AtDone, AtDone] [a, b] [e] True 2 None,
       sched_state [Exited, AtDone] [a, b] [e] True 1 None,
       sched_state [Exited, Exited] [a, b] [e] True 0 None,
       sched_state [Exited, Exited] [a, b] [e] True 0 (Some (Some (Joined [e])))])"

text \<open>
  A defined integer type, \<^verbatim>\<open>type MyInt int\<close>, with no parser of its own and no
  text decoding: its parser is the built-in parser of the kind \<^verbatim>\<open>int\<close>.
\<close>

definition MyInt :: rtype where
  "MyInt = Named ''MyInt'' (Basic IntK)"

text \<open>
  Taking \<open>n\<close> pointers off a value, and a type that declares \<^verbatim>\<open>UnmarshalText\<close> with a
  pointer receiver: \<^verbatim>\<open>type Token string\<close>,
  \<^verbatim>\<open>func (t *Token) UnmarshalText(text []byte) error { *t = Token(text); return nil }\<close>.
  \<open>MarshalText\<close> is the inverse serialization of \<^verbatim>\<open>Token\<close> and of \<^verbatim>\<open>Level\<close>: the bytes
  of the text, \<^verbatim>\<open>func (t Token) MarshalText() ([]byte, error) { return []byte(t), nil }\<close>.
\<close>

fun unwrapN :: "nat \<Rightarrow> val \<Rightarrow> val option" where
  "unwrapN 0 v = Some v"
| "unwrapN (Suc n) (VPtr (Some v)) = unwrapN n v"
| "unwrapN (Suc n) v = None"

definition Token :: rtype where
  "Token = Named ''Token'' (Basic StringK)"

definition MarshalText :: "val \<Rightarrow> string" where
  "MarshalText v = (case v of VString s \<Rightarrow> s | _ \<Rightarrow> [])"

definition token_externs :: externs where
  "token_externs =
     level_externs \<lparr> ptrUnmarshalText := (\<lambda>t. if t = Token then Some (\<lambda>raw. Inr (VString raw)) else None) \<rparr>"

section \<open>Properties\<close>

lemma digits_acc_mono: "n \<le> digits_acc n cs"
proof (induction cs arbitrary: n)
  case Nil
  show ?case by simp
next
  case (Cons c cs)
  have "n \<le> n * 10 + (byte c - 48)" by simp
  also have "\<dots> \<le> digits_acc (n * 10 + (byte c - 48)) cs" by (rule Cons.IH)
  finally show ?case by simp
qed

lemma parseUint_loop_digit:
  assumes "IsDigit c"
  shows "parseUint_loop base maxVal s0 n (c # cs) =
     (if byte c - 48 \<ge> base then (0, Some (syntaxError ''ParseUint'' s0))
      else if n \<ge> maxUint64 div base + 1 then (maxVal, Some (rangeError ''ParseUint'' s0))
      else if (n * base + (byte c - 48)) mod 2 ^ 64 < n * base \<or>
              (n * base + (byte c - 48)) mod 2 ^ 64 > maxVal
        then (maxVal, Some (rangeError ''ParseUint'' s0))
      else parseUint_loop base maxVal s0 ((n * base + (byte c - 48)) mod 2 ^ 64) cs)"
  using assms by (simp add: IsDigit_def Let_def)

lemma parseUint_loop_digits:
  assumes "list_all IsDigit cs" "n \<le> maxVal" "maxVal < 2 ^ 32"
  shows "parseUint_loop 10 maxVal s0 n cs =
     (if digits_acc n cs \<le> maxVal then (digits_acc n cs, None)
      else (maxVal, Some (rangeError ''ParseUint'' s0)))"
  using assms
proof (induction cs arbitrary: n)
  case Nil
  then show ?case by simp
next
  case (Cons c cs)
  define d where "d = byte c - 48"
  from Cons.prems(1) have rest: "list_all IsDigit cs" and c: "IsDigit c"
    by simp_all
  have d10: "d < 10" using c unfolding IsDigit_def d_def by arith
  have ncut: "\<not> n \<ge> maxUint64 div 10 + 1"
    using Cons.prems(2,3) by (simp add: maxUint64_def)
  have nowrap: "(n * 10 + d) mod 2 ^ 64 = n * 10 + d"
  proof -
    have "n * 10 + d < 2 ^ 32 * 10 + 10" using Cons.prems(2,3) d10 by arith
    also have "\<dots> < (2::nat) ^ 64" by simp
    finally show ?thesis by simp
  qed
  have acc: "digits_acc n (c # cs) = digits_acc (n * 10 + d) cs"
    by (simp add: d_def)
  have step: "parseUint_loop 10 maxVal s0 n (c # cs) =
     (if n * 10 + d > maxVal then (maxVal, Some (rangeError ''ParseUint'' s0))
      else parseUint_loop 10 maxVal s0 (n * 10 + d) cs)"
    unfolding parseUint_loop_digit[OF c] d_def[symmetric] nowrap
    using d10 ncut by simp
  show ?case
  proof (cases "n * 10 + d > maxVal")
    case True
    have "n * 10 + d \<le> digits_acc (n * 10 + d) cs" by (rule digits_acc_mono)
    with True have "\<not> digits_acc (n * 10 + d) cs \<le> maxVal" by simp
    with True show ?thesis unfolding step acc by simp
  next
    case False
    then have le: "n * 10 + d \<le> maxVal" by simp
    from Cons.IH[OF rest le Cons.prems(3)] False show ?thesis
      unfolding step acc by simp
  qed
qed

lemma ParseUint_decimal:
  assumes "is_decimal ds" "0 < bits" "bits \<le> 32"
  shows "ParseUint ds 10 bits =
     (if digits_val ds \<le> 2 ^ bits - 1 then (digits_val ds, None)
      else (2 ^ bits - 1, Some (rangeError ''ParseUint'' ds)))"
proof -
  have "(2::nat) ^ bits \<le> 2 ^ 32"
    by (rule power_increasing) (use assms(3) in simp_all)
  moreover have "0 < (2::nat) ^ bits" by simp
  ultimately have "(2::nat) ^ bits - 1 < 2 ^ 32" by linarith
  with assms(1) show ?thesis
    using parseUint_loop_digits[of ds 0 "2 ^ bits - 1" ds]
    by (simp add: ParseUint_def is_decimal_def digits_val_def)
qed

lemma digit_not_sign: "IsDigit c \<Longrightarrow> c \<noteq> CHR ''+'' \<and> c \<noteq> CHR ''-''"
  by (auto simp: IsDigit_def byte_def)

lemma ParseInt_of_ParseUint:
  assumes pu: "ParseUint s 10 32 = (un, e)"
    and e: "e = None \<or> e = Some (rangeError ''ParseUint'' s)"
    and s0: "(s0 = s \<and> \<not> neg \<and> s \<noteq> [] \<and> hd s \<noteq> CHR ''+'' \<and> hd s \<noteq> CHR ''-'') \<or>
             (s0 = CHR ''+'' # s \<and> \<not> neg) \<or> (s0 = CHR ''-'' # s \<and> neg)"
  shows "ParseInt s0 10 32 =
     (if \<not> neg \<and> un \<ge> 2 ^ 31 then (2 ^ 31 - 1, Some (rangeError ''ParseInt'' s0))
      else if neg \<and> un > 2 ^ 31 then (- (2 ^ 31), Some (rangeError ''ParseInt'' s0))
      else (if neg then - int un else int un, None))"
proof -
  have sel: "(case e of Some (NumError f n x) \<Rightarrow> if x \<noteq> ErrRange then Some x else None | _ \<Rightarrow> None) = None"
    using e by (auto simp: rangeError_def)
  from s0 show ?thesis
  proof (elim disjE conjE)
    assume a: "s0 = s" "\<not> neg" "s \<noteq> []" "hd s \<noteq> CHR ''+''" "hd s \<noteq> CHR ''-''"
    then obtain c cs where s: "s = c # cs" by (cases s) auto
    with a have c: "c \<noteq> CHR ''+''" "c \<noteq> CHR ''-''" by simp_all
    have "ParseInt (c # cs) 10 32 =
       (if un \<ge> 2 ^ 31 then (2 ^ 31 - 1, Some (rangeError ''ParseInt'' (c # cs)))
        else (int un, None))"
      using pu[unfolded s] c sel by (simp add: ParseInt_def)
    with a s show ?thesis by simp
  next
    assume a: "s0 = CHR ''+'' # s" "\<not> neg"
    have "ParseInt (CHR ''+'' # s) 10 32 =
       (if un \<ge> 2 ^ 31 then (2 ^ 31 - 1, Some (rangeError ''ParseInt'' (CHR ''+'' # s)))
        else (int un, None))"
      using pu sel by (simp add: ParseInt_def)
    with a show ?thesis by simp
  next
    assume a: "s0 = CHR ''-'' # s" "neg"
    have "ParseInt (CHR ''-'' # s) 10 32 =
       (if un > 2 ^ 31 then (- (2 ^ 31), Some (rangeError ''ParseInt'' (CHR ''-'' # s)))
        else (- int un, None))"
      using pu sel by (simp add: ParseInt_def)
    with a show ?thesis by simp
  qed
qed

lemma ParseInt_decimal:
  assumes dec: "is_decimal ds" and sg: "sg = [] \<or> sg = ''+'' \<or> sg = ''-''"
  shows "ParseInt (sg @ ds) 10 32 =
     (if - (2 ^ 31) \<le> signed_val sg ds \<and> signed_val sg ds \<le> 2 ^ 31 - 1
      then (signed_val sg ds, None)
      else (if sg = ''-'' then - (2 ^ 31) else 2 ^ 31 - 1,
            Some (rangeError ''ParseInt'' (sg @ ds))))"
proof -
  from dec obtain c cs where ds: "ds = c # cs" and c: "IsDigit c"
    by (cases ds) (auto simp: is_decimal_def)
  define un where "un = (if digits_val ds \<le> 2 ^ 32 - 1 then digits_val ds else 2 ^ 32 - 1)"
  define e where "e = (if digits_val ds \<le> 2 ^ 32 - 1 then None else Some (rangeError ''ParseUint'' ds))"
  have pu: "ParseUint ds 10 32 = (un, e)"
    using ParseUint_decimal[OF dec, of 32] by (simp add: un_def e_def)
  have e: "e = None \<or> e = Some (rangeError ''ParseUint'' ds)"
    by (simp add: e_def)
  have s0: "(sg @ ds = ds \<and> \<not> (sg = ''-'') \<and> ds \<noteq> [] \<and> hd ds \<noteq> CHR ''+'' \<and> hd ds \<noteq> CHR ''-'') \<or>
             (sg @ ds = CHR ''+'' # ds \<and> \<not> (sg = ''-'')) \<or> (sg @ ds = CHR ''-'' # ds \<and> (sg = ''-''))"
    using sg digit_not_sign[OF c] by (auto simp: ds)
  have un_ge: "un \<ge> 2 ^ 31 \<longleftrightarrow> digits_val ds \<ge> 2 ^ 31"
    by (simp add: un_def)
  have un_gt: "un > 2 ^ 31 \<longleftrightarrow> digits_val ds > 2 ^ 31"
    by (simp add: un_def)
  have un_eq: "\<not> un \<ge> 2 ^ 31 \<Longrightarrow> un = digits_val ds" "\<not> un > 2 ^ 31 \<Longrightarrow> un = digits_val ds"
    by (simp_all add: un_def split: if_splits)
  show ?thesis
  proof (cases "sg = ''-''")
    case True
    show ?thesis
      unfolding ParseInt_of_ParseUint[OF pu e s0]
      using True un_gt un_eq(2) by (auto simp: signed_val_def)
  next
    case False
    show ?thesis
      unfolding ParseInt_of_ParseUint[OF pu e s0]
      using False un_ge un_eq(1) by (auto simp: signed_val_def)
  qed
qed


declare setValue.simps [simp del] setStruct.simps [simp del] setStructField.simps [simp del]
declare GetParseFunc_loop.simps [simp del] unpack_pointers.simps [simp del] Count.simps [simp del]

lemma unpack_pointers_base: "kind_of t \<noteq> PointerK \<Longrightarrow> unpack_pointers t d = (t, d)"
  by (subst unpack_pointers.simps) simp

lemma kind_underlying: "kind_of (underlying t) = kind_of t"
  by (induction t rule: underlying.induct) simp_all

lemma underlying_basic:
  assumes "kind_of t = k" "k \<in> set [BoolK, IntK, Int8K, Int16K, Int32K, Int64K, UintK, Uint8K, Uint16K,
     Uint32K, Uint64K, Float32K, Float64K, StringK]"
  shows "underlying t = Basic k"
  using assms by (induction t rule: underlying.induct) auto

lemma GetParseFunc_builtin:
  assumes "envRegistry x t = None" "valueUnmarshalText x t = None" "ptrUnmarshalText x t = None"
    and "kind_of t \<noteq> PointerK" "defaultBuiltInParsers x (kind_of t) = Some pf"
  shows "GetParseFunc x t = Found (Some pf) 0"
  using assms unfolding GetParseFunc_def
  by (subst GetParseFunc_loop.simps) (simp add: handleTextUnmarshaler_def unpack_pointers_base)

lemma setValue_leaf:
  assumes "getEnv p (key f) = Some s" "s \<noteq> []" "kind_of t \<noteq> PointerK"
    and "GetParseFunc x t = Found (Some pf) d"
  shows "setValue x p t v f pfx =
     (case pf s of
        PPanic \<Rightarrow> Panic
      | PRet a (Some e) \<Rightarrow> Done (v, [FieldError (keyWithPrefix p (key f)) t e], [ParserCall t s])
      | PRet a None \<Rightarrow>
          (case convert x a t of
             None \<Rightarrow> Panic
           | Some (w, iface) \<Rightarrow>
               Done (w, [], ParserCall t s #
                 (if onSet p then [OnSetCall (keyWithPrefix p (key f)) iface False] else []))))"
  using assms
  by (subst setValue.simps)
     (simp add: deref_def reref_def call_def Let_def split: presult.splits option.splits)

lemma convert_builtin:
  assumes "kind_of t = k" "k \<in> set [BoolK, IntK, Int8K, Int16K, Int32K, Int64K, UintK, Uint8K, Uint16K,
     Uint32K, Uint64K, Float32K, Float64K, StringK]"
  shows "convert x (Any (Basic k) w) t = Some (w, Any t w)"
proof -
  have "underlying t = Basic k" using assms by (rule underlying_basic)
  moreover have "kind_of t \<noteq> InterfaceK" using assms by auto
  ultimately show ?thesis by (simp add: convert_def)
qed

text \<open>
  Claim C10. The built-in parsers of the kinds \<^verbatim>\<open>int\<close> and \<^verbatim>\<open>uint\<close> parse with
  32-bit bounds. A field whose type is of kind \<^verbatim>\<open>int\<close> and that no registered or
  text-decoding parser claims first, given a decimal numeral with an optional sign:
  if the number lies in the signed 32-bit range the field is set to exactly that
  number, otherwise the field keeps its value and the decode reports one field error
  that wraps the range error of \<^verbatim>\<open>strconv.ParseInt\<close>. Likewise for a field of kind
  \<^verbatim>\<open>uint\<close>, a decimal numeral (\<^verbatim>\<open>strconv.ParseUint\<close> takes no sign) and the
  unsigned 32-bit range.
\<close>

theorem builtin_int_uint_32_bit:
  assumes ti: "kind_of ti = IntK" "envRegistry x ti = None"
              "valueUnmarshalText x ti = None" "ptrUnmarshalText x ti = None"
    and tu: "kind_of tu = UintK" "envRegistry x tu = None"
            "valueUnmarshalText x tu = None" "ptrUnmarshalText x tu = None"
    and dec: "is_decimal ds" and sg: "sg = [] \<or> sg = ''+'' \<or> sg = ''-''"
    and envi: "getEnv p (key fi) = Some (sg @ ds)" and envu: "getEnv p (key fu) = Some ds"
  shows "setValue x p ti v fi pfx =
           (if - (2 ^ 31) \<le> signed_val sg ds \<and> signed_val sg ds \<le> 2 ^ 31 - 1
            then Done (VInt (signed_val sg ds), [],
                   ParserCall ti (sg @ ds) #
                   (if onSet p
                    then [OnSetCall (keyWithPrefix p (key fi)) (Any ti (VInt (signed_val sg ds))) False]
                    else []))
            else Done (v, [FieldError (keyWithPrefix p (key fi)) ti
                             (NumError ''ParseInt'' (sg @ ds) ErrRange)],
                       [ParserCall ti (sg @ ds)])) \<and>
         setValue x p tu v fu pfx =
           (if digits_val ds \<le> 2 ^ 32 - 1
            then Done (VInt (int (digits_val ds)), [],
                   ParserCall tu ds #
                   (if onSet p
                    then [OnSetCall (keyWithPrefix p (key fu)) (Any tu (VInt (int (digits_val ds)))) False]
                    else []))
            else Done (v, [FieldError (keyWithPrefix p (key fu)) tu
                             (NumError ''ParseUint'' ds ErrRange)],
                       [ParserCall tu ds]))"
proof
  have ne: "ds \<noteq> []" "sg @ ds \<noteq> []" using dec by (simp_all add: is_decimal_def)
  have gi: "GetParseFunc x ti = Found (Some (intParser IntK 32)) 0"
    using ti by (intro GetParseFunc_builtin) (simp_all add: defaultBuiltInParsers_def)
  have ci: "\<And>w. convert x (Any (Basic IntK) w) ti = Some (w, Any ti w)"
    using ti(1) by (intro convert_builtin) simp_all
  show "setValue x p ti v fi pfx =
           (if - (2 ^ 31) \<le> signed_val sg ds \<and> signed_val sg ds \<le> 2 ^ 31 - 1
            then Done (VInt (signed_val sg ds), [],
                   ParserCall ti (sg @ ds) #
                   (if onSet p
                    then [OnSetCall (keyWithPrefix p (key fi)) (Any ti (VInt (signed_val sg ds))) False]
                    else []))
            else Done (v, [FieldError (keyWithPrefix p (key fi)) ti
                             (NumError ''ParseInt'' (sg @ ds) ErrRange)],
                       [ParserCall ti (sg @ ds)]))"
    unfolding setValue_leaf[OF envi ne(2) _ gi, simplified ti(1), simplified]
    by (simp add: intParser_def ParseInt_decimal[OF dec sg] ci rangeError_def)
  have gu: "GetParseFunc x tu = Found (Some (uintParser UintK 32)) 0"
    using tu by (intro GetParseFunc_builtin) (simp_all add: defaultBuiltInParsers_def)
  have cu: "\<And>w. convert x (Any (Basic UintK) w) tu = Some (w, Any tu w)"
    using tu(1) by (intro convert_builtin) simp_all
  have pu: "ParseUint ds 10 32 =
     (if digits_val ds \<le> 2 ^ 32 - 1 then (digits_val ds, None)
      else (2 ^ 32 - 1, Some (rangeError ''ParseUint'' ds)))"
    using ParseUint_decimal[OF dec, of 32] by simp
  show "setValue x p tu v fu pfx =
           (if digits_val ds \<le> 2 ^ 32 - 1
            then Done (VInt (int (digits_val ds)), [],
                   ParserCall tu ds #
                   (if onSet p
                    then [OnSetCall (keyWithPrefix p (key fu)) (Any tu (VInt (int (digits_val ds)))) False]
                    else []))
            else Done (v, [FieldError (keyWithPrefix p (key fu)) tu
                             (NumError ''ParseUint'' ds ErrRange)],
                       [ParserCall tu ds]))"
    unfolding setValue_leaf[OF envu ne(1) _ gu, simplified tu(1), simplified]
    by (simp add: uintParser_def pu cu rangeError_def)
qed

theorem builtin_int_uint_32_bit_witness:
  "setValue no_externs (env_N ''3000000000'') (Basic IntK) (VInt 7) field_N [] =
     Done (VInt 7, [FieldError ''N'' (Basic IntK) (NumError ''ParseInt'' ''3000000000'' ErrRange)],
           [ParserCall (Basic IntK) ''3000000000'']) \<and>
   setValue no_externs (env_N ''3000000000'') (Basic UintK) (VInt 7) field_N [] =
     Done (VInt 3000000000, [],
           [ParserCall (Basic UintK) ''3000000000'',
            OnSetCall ''N'' (Any (Basic UintK) (VInt 3000000000)) False])"
  using builtin_int_uint_32_bit[of "Basic IntK" no_externs "Basic UintK" "''3000000000''" "[]"
          "env_N ''3000000000''" field_N field_N "VInt 7" "[]"]
  by (simp add: no_externs_def env_N_def field_N_def getEnv_def keyWithPrefix_def is_decimal_def
        IsDigit_def byte_def signed_val_def digits_val_def)

lemmas field_defs = parseFieldParams_def tagOption_def Split_def SplitN_def
  genSplit_def Tag_Get_def Tag_Lookup_def tagName_def tagDefault_def tagSeparator_def tagKVSeparator_def
  tagPrefix_def structTagPrefix_def getEnv_def keyWithPrefix_def deref_def reref_def is_nil_def
  struct_fields_def call_def convert_def map_value_def errors_Join_def Let_def
  setValue.simps setStruct.simps setStructField.simps Count.simps

lemmas decode_defs = Parse_def parseInternal_def field_defs

lemmas parser_defs = defaultBuiltInParsers_def intParser_def uintParser_def ParseInt_def ParseUint_def
  byte_def maxUint64_def

text \<open>
  Claim C9. The environment \<^verbatim>\<open>{"PORT": "3000", "HOST": "localhost"}\<close> decoded into a
  record with the fields \<^verbatim>\<open>Port int `env:"PORT"`\<close> and
  \<^verbatim>\<open>Host string `env:"HOST" default:"0.0.0.0"`\<close> gives \<^verbatim>\<open>Port = 3000\<close> and
  \<^verbatim>\<open>Host = "localhost"\<close>; with \<^verbatim>\<open>HOST\<close> absent it gives \<^verbatim>\<open>Host = "0.0.0.0"\<close>
  and the observer is called for that field with the is-default flag set. This holds
  whatever the fields held before and for every registry that has no parser of its
  own for \<^verbatim>\<open>int\<close> and \<^verbatim>\<open>string\<close>.
\<close>

theorem example_decode:
  assumes "envRegistry x (Basic IntK) = None" "valueUnmarshalText x (Basic IntK) = None"
          "ptrUnmarshalText x (Basic IntK) = None"
    and "envRegistry x (Basic StringK) = None" "valueUnmarshalText x (Basic StringK) = None"
        "ptrUnmarshalText x (Basic StringK) = None"
  shows "Parse x (Any (PointerTo example_config) (VPtr (Some (VStruct [port, host]))))
           (example_env [''PORT'' \<mapsto> ''3000'', ''HOST'' \<mapsto> ''localhost'']) =
         Done (Any (PointerTo example_config)
                 (VPtr (Some (VStruct [VInt 3000, VString ''localhost'']))),
               None,
               [ParserCall (Basic IntK) ''3000'',
                OnSetCall ''PORT'' (Any (Basic IntK) (VInt 3000)) False,
                ParserCall (Basic StringK) ''localhost'',
                OnSetCall ''HOST'' (Any (Basic StringK) (VString ''localhost'')) False]) \<and>
         Parse x (Any (PointerTo example_config) (VPtr (Some (VStruct [port, host]))))
           (example_env [''PORT'' \<mapsto> ''3000'']) =
         Done (Any (PointerTo example_config)
                 (VPtr (Some (VStruct [VInt 3000, VString ''0.0.0.0'']))),
               None,
               [ParserCall (Basic IntK) ''3000'',
                OnSetCall ''PORT'' (Any (Basic IntK) (VInt 3000)) False,
                ParserCall (Basic StringK) ''0.0.0.0'',
                OnSetCall ''HOST'' (Any (Basic StringK) (VString ''0.0.0.0'')) True])"
proof -
  have gi: "GetParseFunc x (Basic IntK) = Found (Some (intParser IntK 32)) 0"
    using assms by (intro GetParseFunc_builtin) (simp_all add: defaultBuiltInParsers_def)
  have gs: "GetParseFunc x (Basic StringK) =
      Found (Some (\<lambda>v. PRet (Any (Basic StringK) (VString v)) None)) 0"
    using assms by (intro GetParseFunc_builtin) (simp_all add: defaultBuiltInParsers_def)
  have p: "intParser IntK 32 ''3000'' = PRet (Any (Basic IntK) (VInt 3000)) None"
    by (simp add: parser_defs)
  show ?thesis
    by (simp add: decode_defs example_config_def example_env_def gi gs p)
qed

theorem example_decode_witness:
  "Parse no_externs (Any (PointerTo example_config) (VPtr (Some (VStruct [VInt 0, VString []]))))
     (example_env [''PORT'' \<mapsto> ''3000'']) =
   Done (Any (PointerTo example_config) (VPtr (Some (VStruct [VInt 3000, VString ''0.0.0.0'']))),
         None,
         [ParserCall (Basic IntK) ''3000'',
          OnSetCall ''PORT'' (Any (Basic IntK) (VInt 3000)) False,
          ParserCall (Basic StringK) ''0.0.0.0'',
          OnSetCall ''HOST'' (Any (Basic StringK) (VString ''0.0.0.0'')) True])"
  using example_decode[of no_externs "VInt 0" "VString []"]
  by (simp add: no_externs_def)

lemma GetParseFunc_loop_pointer:
  "kind_of inner = PointerK \<Longrightarrow> GetParseFunc_loop x inner t depth \<noteq> NotFound"
proof (induction x inner t depth rule: GetParseFunc_loop.induct)
  case (1 x inner t depth)
  show ?case
    using 1
    by (subst GetParseFunc_loop.simps) (auto split: option.splits)
qed

lemma GetParseFunc_pointer_never_NotFound:
  "kind_of typ = PointerK \<Longrightarrow> GetParseFunc x typ \<noteq> NotFound"
  unfolding GetParseFunc_def by (rule GetParseFunc_loop_pointer)

lemma GetParseFunc_not_pointer_NotFound:
  assumes "kind_of typ \<noteq> PointerK" "envRegistry x typ = None"
    and "valueUnmarshalText x typ = None" "ptrUnmarshalText x typ = None"
    and "defaultBuiltInParsers x (kind_of typ) = None"
  shows "GetParseFunc x typ = NotFound"
  using assms unfolding GetParseFunc_def
  by (subst GetParseFunc_loop.simps) (simp add: handleTextUnmarshaler_def unpack_pointers_base)

text \<open>
  Claim C2, at the input where the code departs from it. For the pointer to a record
  type, with no registered parser, no text-decoding method and no built-in parser at
  either level, the lookup does not return "not found": after the pointer is
  stripped the loop still sees a pointer in \<^verbatim>\<open>inner\<close>, calls \<^verbatim>\<open>Elem\<close> on the record
  type and panics. The record type itself is reported as not found.
\<close>

theorem GetParseFunc_pointer_to_struct_panics:
  "GetParseFunc no_externs (PointerTo plain_struct) = ElemPanic \<and>
   GetParseFunc no_externs plain_struct = NotFound"
  by (simp add: GetParseFunc_def GetParseFunc_loop.simps handleTextUnmarshaler_def
        unpack_pointers.simps defaultBuiltInParsers_def no_externs_def plain_struct_def)

lemmas toEnvName_defs = toEnvName_def classOf_def IsLower_def IsUpper_def IsDigit_def ToUpper_def
  is_class_def byte_def



lemma ptrN_PointerTo: "ptrN n (PointerTo t) = PointerTo (ptrN n t)"
  by (induction n) simp_all

lemma wrapN_VPtr: "wrapN n (VPtr (Some v)) = VPtr (Some (wrapN n v))"
  by (induction n) simp_all

lemma ptr_wrap_eq: "ptr_wrap n t v = (ptrN n t, wrapN n v)"
  by (induction n arbitrary: t v) (simp_all add: ptrN_PointerTo wrapN_VPtr)

lemma unpack_pointers_ptrN:
  "kind_of base \<noteq> PointerK \<Longrightarrow> unpack_pointers (ptrN n base) d = (base, d + n)"
proof (induction n arbitrary: d)
  case 0
  then show ?case by (simp add: unpack_pointers_base)
next
  case (Suc n)
  have "unpack_pointers (ptrN (Suc n) base) d = unpack_pointers (ptrN n (PointerTo base)) d"
    by (simp add: ptrN_PointerTo)
  show ?case
    by (subst unpack_pointers.simps) (simp add: Suc)
qed

text \<open>
  The pointer-depth restoration of the text-decodable adapter. For a base type with a
  pointer-receiver \<^verbatim>\<open>UnmarshalText\<close>, looked up at pointer depth \<open>n\<close>, the lookup finds
  the synthesized parser with pointer depth 0, and the parser returns the decoded
  value in exactly \<open>n\<close> layers of pointers, of the type it was looked up for.
\<close>

lemma ptrTextUnmarshaler_depth:
  "ptrTextUnmarshaler um base n raw =
     (case um raw of
        Inl e \<Rightarrow> PRet Nil (Some (UnmarshalFuncError (PointerTo base) e))
      | Inr d \<Rightarrow> PRet (Any (ptrN n base) (wrapN n d)) None)"
proof (cases n)
  case 0
  then show ?thesis by (simp add: ptrTextUnmarshaler_def split: sum.splits)
next
  case (Suc m)
  then show ?thesis
    by (cases m)
       (simp_all add: ptrTextUnmarshaler_def ptr_wrap_eq any_of_def ptrN_PointerTo wrapN_VPtr
          split: sum.splits)
qed

lemma valueTextUnmarshaler_depth:
  "kind_of base \<noteq> InterfaceK \<Longrightarrow>
   valueTextUnmarshaler um base n raw =
     (case um raw of
        Some e \<Rightarrow> PRet Nil (Some (UnmarshalFuncError base e))
      | None \<Rightarrow> PRet (Any (ptrN n base) (wrapN n (zero base))) None)"
  by (cases n) (simp_all add: valueTextUnmarshaler_def ptr_wrap_eq any_of_def split: option.splits)

lemma GetParseFunc_ptr_receiver:
  assumes "kind_of base \<noteq> PointerK" "envRegistry x (ptrN n base) = None"
    and "valueUnmarshalText x base = None" "ptrUnmarshalText x base = Some um"
  shows "GetParseFunc x (ptrN n base) = Found (Some (ptrTextUnmarshaler um base n)) 0"
  using assms unfolding GetParseFunc_def
  by (subst GetParseFunc_loop.simps) (simp add: handleTextUnmarshaler_def unpack_pointers_ptrN)

lemma GetParseFunc_value_receiver:
  assumes "kind_of base \<noteq> PointerK" "envRegistry x (ptrN n base) = None"
    and "valueUnmarshalText x base = Some um"
  shows "GetParseFunc x (ptrN n base) = Found (Some (valueTextUnmarshaler um base n)) 0"
  using assms unfolding GetParseFunc_def
  by (subst GetParseFunc_loop.simps) (simp add: handleTextUnmarshaler_def unpack_pointers_ptrN)


text \<open>
  The same at the level of a field: a field declared at pointer depth \<open>n\<close> over a
  base type with a pointer-receiver \<^verbatim>\<open>UnmarshalText\<close> holds, after \<^verbatim>\<open>setValue\<close>, the
  decoded value in exactly \<open>n\<close> layers of pointers (\<^verbatim>\<open>setValue\<close> looks the parser up
  for the target of the field's outermost pointer and stores through that pointer).
\<close>

lemma setValue_ptr_receiver_depth:
  assumes base: "kind_of base \<noteq> PointerK" "valueUnmarshalText x base = None"
      "ptrUnmarshalText x base = Some um"
    and reg: "envRegistry x (ptrN (n - 1) base) = None"
    and raw: "um raw = Inr d" "getEnv p (key f) = Some raw" "raw \<noteq> []"
  shows "setValue x p (ptrN n base) v f pfx =
     Done (wrapN n d, [],
           ParserCall (ptrN (n - 1) base) raw #
           (if onSet p
            then [OnSetCall (keyWithPrefix p (key f)) (Any (ptrN (n - 1) base) (wrapN (n - 1) d)) False]
            else []))"
proof (cases n)
  case 0
  have g: "GetParseFunc x base = Found (Some (ptrTextUnmarshaler um base 0)) 0"
    using GetParseFunc_ptr_receiver[of base x 0 um] base reg 0 by simp
  show ?thesis
    using 0 base raw
    by (simp add: setValue_leaf[OF raw(2,3) base(1) g] ptrTextUnmarshaler_depth convert_def)
next
  case (Suc m)
  have g: "GetParseFunc x (ptrN m base) = Found (Some (ptrTextUnmarshaler um base m)) 0"
    using GetParseFunc_ptr_receiver[of base x m um] base reg Suc by simp
  show ?thesis
    unfolding Suc
    by (subst setValue.simps)
       (simp add: raw deref_def reref_def call_def g ptrTextUnmarshaler_depth convert_def Let_def)
qed

lemma phase_loop_calls: "snd (phase_loop ph m i vs) = map (Param ph) [i..<i + length vs]"
proof (induction vs arbitrary: i)
  case Nil
  show ?case by simp
next
  case (Cons v vs)
  have "[i..<i + length (v # vs)] = i # [Suc i..<Suc i + length vs]"
    using upt_conv_Cons[of i "i + Suc (length vs)"] by simp
  then show ?case
    using Cons[of "Suc i"] by (simp add: split_beta)
qed

lemma phase_loop_errs: "fst (phase_loop ph m i vs) = [] \<longleftrightarrow> \<not> list_ex (\<lambda>v. m v \<noteq> None) vs"
  by (induction vs arbitrary: i) (auto simp: split_beta split: option.splits)

lemma run_phase_eq:
  "run_phase ph m metricServer configurations = (es, cs) \<Longrightarrow>
   cs = phase_calls ph (length configurations) \<and>
   (length es > 0 \<longleftrightarrow> failed m metricServer configurations)"
  using phase_loop_calls[of ph m 0 configurations] phase_loop_errs[of ph m 0 configurations]
  by (auto simp: run_phase_def phase_calls_def failed_def split_beta split: option.splits)

lemma count_phase_calls:
  "count_list (phase_calls ph n) (Param ph' i) = (if ph = ph' \<and> i < n then 1 else 0)"
proof -
  have "count_list (map (Param ph) [0..<n]) (Param ph' i) = (if ph = ph' \<and> i < n then 1 else 0)"
    by (induction n) auto
  then show ?thesis by (simp add: phase_calls_def)
qed

lemma Run_trace:
  assumes "\<not> failed Configure ms configurations"
  shows "Run (Some ms) configurations code =
     Done (let n = length configurations
           in if failed Acquire ms configurations
              then (phase_calls ConfigureP n @ phase_calls AcquireP n, 1)
              else (phase_calls ConfigureP n @ phase_calls AcquireP n @ [Action] @ phase_calls ShutdownP n,
                    if failed Shutdown ms configurations then 1 else code))"
proof -
  obtain e1 c1 where r1: "run_phase ConfigureP Configure ms configurations = (e1, c1)"
    by (cases "run_phase ConfigureP Configure ms configurations")
  obtain e2 c2 where r2: "run_phase AcquireP Acquire ms configurations = (e2, c2)"
    by (cases "run_phase AcquireP Acquire ms configurations")
  obtain e3 c3 where r3: "run_phase ShutdownP Shutdown ms configurations = (e3, c3)"
    by (cases "run_phase ShutdownP Shutdown ms configurations")
  from run_phase_eq[OF r1] run_phase_eq[OF r2] run_phase_eq[OF r3] assms
  show ?thesis
    by (simp add: Run_def r1 r2 r3 Let_def)
qed

text \<open>
  Without a metrics address there is no metrics server, and the run panics in
  \<^verbatim>\<open>metricServer.configure\<close> before any lifecycle method of a parameter is called.
\<close>

lemma Run_without_metrics_server: "Run None configurations code = Panic"
  by (simp add: Run_def)

text \<open>
  Claim C1 as stated fails: with a metrics server and two resource parameters, the
  first acquiring successfully and Acquire failing on the second, the run returns
  exit code 1 after the Acquire calls and Shutdown is invoked on no parameter, so not
  once on the first.
\<close>

theorem Run_acquire_failure_counterexample:
  "Acquire param_ok = None \<and> Acquire param_bad \<noteq> None \<and>
   Run (Some param_ok) [param_ok, param_bad] 0 =
     Done ([MetricServer ConfigureP, Param ConfigureP 0, Param ConfigureP 1,
            MetricServer AcquireP, Param AcquireP 0, Param AcquireP 1], 1) \<and>
   count_list (calls_made (Run (Some param_ok) [param_ok, param_bad] 0)) (Param ShutdownP 0) \<noteq> 1"
  by (simp add: Run_def run_phase_def param_ok_def param_bad_def)

text \<open>
  Claim C1 as amended. When the metrics server is configured and Configure succeeded
  everywhere (on the metrics server and on every parameter): if Acquire fails on some
  parameter (or on the metrics server), the orchestrator has still invoked Acquire
  once on every parameter, invokes Shutdown on none and returns exit code 1. Only
  when every Acquire succeeded does it run the action and then invoke Shutdown,
  exactly once on every parameter, in discovery order.
\<close>

theorem Run_shutdown_only_after_acquire:
  assumes "\<not> failed Configure ms configurations"
  shows "(failed Acquire ms configurations \<longrightarrow>
            Run (Some ms) configurations code =
              Done (phase_calls ConfigureP (length configurations) @
                    phase_calls AcquireP (length configurations), 1) \<and>
            (\<forall>i < length configurations.
               count_list (calls_made (Run (Some ms) configurations code)) (Param AcquireP i) = 1 \<and>
               count_list (calls_made (Run (Some ms) configurations code)) (Param ShutdownP i) = 0)) \<and>
         (\<not> failed Acquire ms configurations \<longrightarrow>
            calls_made (Run (Some ms) configurations code) =
              phase_calls ConfigureP (length configurations) @
              phase_calls AcquireP (length configurations) @ [Action] @
              phase_calls ShutdownP (length configurations) \<and>
            (\<forall>i < length configurations.
               count_list (calls_made (Run (Some ms) configurations code)) (Param ShutdownP i) = 1))"
  by (simp add: Run_trace[OF assms] Let_def count_phase_calls)

theorem Run_shutdown_only_after_acquire_witness:
  "Run (Some param_ok) [param_ok, param_bad] 5 =
     Done (phase_calls ConfigureP 2 @ phase_calls AcquireP 2, 1) \<and>
   count_list (calls_made (Run (Some param_ok) [param_ok, param_bad] 5)) (Param AcquireP 1) = 1 \<and>
   count_list (calls_made (Run (Some param_ok) [param_ok, param_bad] 5)) (Param ShutdownP 0) = 0 \<and>
   calls_made (Run (Some param_ok) [param_ok, param_ok] 5) =
     phase_calls ConfigureP 2 @ phase_calls AcquireP 2 @ [Action] @ phase_calls ShutdownP 2 \<and>
   count_list (calls_made (Run (Some param_ok) [param_ok, param_ok] 5)) (Param ShutdownP 1) = 1"
proof -
  have c1: "\<not> failed Configure param_ok [param_ok, param_bad]"
    and a1: "failed Acquire param_ok [param_ok, param_bad]"
    and c2: "\<not> failed Configure param_ok [param_ok, param_ok]"
    and a2: "\<not> failed Acquire param_ok [param_ok, param_ok]"
    by (simp_all add: failed_def param_ok_def param_bad_def)
  have len: "length [param_ok, param_bad] = 2" "length [param_ok, param_ok] = 2"
    by simp_all
  note bad = Run_shutdown_only_after_acquire[OF c1, of 5, THEN conjunct1, rule_format, OF a1,
      unfolded len]
  note good = Run_shutdown_only_after_acquire[OF c2, of 5, THEN conjunct2, rule_format, OF a2,
      unfolded len]
  have "(1::nat) < 2" "(0::nat) < 2" by simp_all
  with bad good show ?thesis by blast
qed

lemma setStruct_loop_all_fields:
  "length vs = length fs \<Longrightarrow>
   setStruct_loop x p pfx fs vs =
     (let rs = field_results x p pfx fs vs
      in if Panic \<in> set rs then Panic
         else Done (map value_of rs, concat (map errs_of rs), concat (map events_of rs)))"
proof (induction fs arbitrary: vs)
  case Nil
  then show ?case by (simp add: field_results_def)
next
  case (Cons fld fs)
  then obtain v vs' where vs: "vs = v # vs'" and len: "length vs' = length fs"
    by (cases vs) auto
  show ?case
  proof (cases "setStructField x p fld v (structTagPrefix pfx fld)")
    case Panic
    then show ?thesis by (simp add: vs field_results_def)
  next
    case (Done r)
    obtain v1 es1 evs1 where r: "r = (v1, es1, evs1)" by (cases r)
    show ?thesis
      using Cons.IH[OF len] Done r
      by (auto simp: vs field_results_def Let_def)
  qed
qed

lemma errors_Join_Some: "es \<noteq> [] \<Longrightarrow> errors_Join (map Some es) = Some (Joined es)"
proof -
  have "concat (map (\<lambda>e. case e of None \<Rightarrow> [] | Some e' \<Rightarrow> [e']) (map Some es)) = es"
    by (induction es) simp_all
  moreover assume "es \<noteq> []"
  then have "\<not> list_all (\<lambda>e. e = None) (map Some es)" by (cases es) simp_all
  ultimately show ?thesis by (simp add: errors_Join_def)
qed

lemma kind_struct_fields: "struct_fields u = Some fs \<Longrightarrow> kind_of u = StructK"
  using kind_underlying[of u] by (auto simp: struct_fields_def split: rtype.splits)

text \<open>
  Claim C7. Every decode call walks all fields of the record: the result is made of
  what each field gives on its own, whatever the fields before it reported. The
  field errors of all fields are collected in field order and aggregated: with no
  field error the call returns nil, with exactly one it returns that error itself,
  with more it returns the join of all of them. (Only a panic, the signal of a
  schema error, ends the walk.)
\<close>

theorem parseInternal_aggregates_field_errors:
  assumes "kind_of t = PointerK" "elem t = Some u" "struct_fields u = Some fs"
    and "length vs = length fs"
  shows "parseInternal x (Any t (VPtr (Some (VStruct vs)))) opts pfx =
     (let rs = field_results x opts pfx fs vs;
          fieldErrs = concat (map errs_of rs)
      in if Panic \<in> set rs then Panic
         else Done (Any t (VPtr (Some (VStruct (map value_of rs)))),
                    (case fieldErrs of
                       [] \<Rightarrow> None
                     | [e] \<Rightarrow> Some e
                     | _ \<Rightarrow> Some (Joined fieldErrs)),
                    concat (map events_of rs)))"
proof -
  define rs where "rs = field_results x opts pfx fs vs"
  have k: "kind_of u = StructK" using assms(3) by (rule kind_struct_fields)
  have agg: "(case es of [] \<Rightarrow> None | [e] \<Rightarrow> Some e | _ \<Rightarrow> errors_Join (map Some es)) =
             (case es of [] \<Rightarrow> None | [e] \<Rightarrow> Some e | _ \<Rightarrow> Some (Joined es))" for es
  proof (cases es)
    case Nil
    then show ?thesis by simp
  next
    case (Cons e es')
    then show ?thesis
      using errors_Join_Some[of es] by (cases es') simp_all
  qed
  have loop: "setStruct_loop x opts pfx fs vs =
     (if Panic \<in> set rs then Panic
      else Done (map value_of rs, concat (map errs_of rs), concat (map events_of rs)))"
    using setStruct_loop_all_fields[OF assms(4), of x opts pfx] by (simp add: rs_def Let_def)
  have "parseInternal x (Any t (VPtr (Some (VStruct vs)))) opts pfx =
     (if Panic \<in> set rs then Panic
      else Done (Any t (VPtr (Some (VStruct (map value_of rs)))),
                 (case concat (map errs_of rs) of
                    [] \<Rightarrow> None
                  | [e] \<Rightarrow> Some e
                  | _ \<Rightarrow> Some (Joined (concat (map errs_of rs)))),
                 concat (map events_of rs)))"
    using assms(1-3) k by (simp add: parseInternal_def setStruct.simps loop agg)
  then show ?thesis unfolding rs_def Let_def .
qed


theorem parseInternal_aggregates_field_errors_witness:
  "parseInternal no_externs (Any (PointerTo two_ints) (VPtr (Some (VStruct [VInt 0, VInt 0]))))
     (example_env [''A'' \<mapsto> ''x'']) [] =
   Done (Any (PointerTo two_ints) (VPtr (Some (VStruct [VInt 0, VInt 0]))),
         Some (Joined [FieldError ''A'' (Basic IntK) (NumError ''ParseInt'' ''x'' ErrSyntax),
                       FieldError ''B'' (Basic IntK) ErrValueNotSet]),
         [ParserCall (Basic IntK) ''x''])"
proof -
  have g: "GetParseFunc no_externs (Basic IntK) = Found (Some (intParser IntK 32)) 0"
    by (intro GetParseFunc_builtin) (simp_all add: defaultBuiltInParsers_def no_externs_def)
  have p: "intParser IntK 32 ''x'' = PRet (Any (Basic IntK) (VInt 0)) (Some (NumError ''ParseInt'' ''x'' ErrSyntax))"
    by (simp add: parser_defs lower_def syntaxError_def)
  have s: "struct_fields two_ints = Some
     [SField ''A'' True [(''env'', ''A'')] (Basic IntK),
      SField ''B'' True [(''env'', ''B'')] (Basic IntK)]"
    by (simp add: struct_fields_def two_ints_def)
  show ?thesis
    using parseInternal_aggregates_field_errors[of "PointerTo two_ints" two_ints _ "[VInt 0, VInt 0]"
            no_externs "example_env [''A'' \<mapsto> ''x'']" "[]", OF _ _ s]
    by (simp add: field_results_def field_defs example_env_def g p)
qed

lemma setSlice_loop_all_parts:
  assumes "list_all (fit_for_element x pf depth itemType) parts"
  shows "\<exists>res'. setSlice_loop x pf depth itemType i parts acc res evs =
           Done (acc @ slice_failures pf i parts, res', evs @ map (ParserCall itemType) parts)"
  using assms
proof (induction parts arbitrary: i acc res evs)
  case Nil
  show ?case by simp
next
  case (Cons part parts)
  from Cons.prems have fit: "fit_for_element x pf depth itemType part"
    and rest: "list_all (fit_for_element x pf depth itemType) parts"
    by simp_all
  from fit obtain r e where c: "call pf part = PRet r e"
    by (cases "call pf part") (auto simp: fit_for_element_def)
  show ?case
  proof (cases e)
    case (Some er)
    obtain res' where
      "setSlice_loop x pf depth itemType (Suc i) parts (acc @ [IndexError i er]) res
         (evs @ [ParserCall itemType part]) =
       Done ((acc @ [IndexError i er]) @ slice_failures pf (Suc i) parts, res',
             (evs @ [ParserCall itemType part]) @ map (ParserCall itemType) parts)"
      using Cons.IH[OF rest] by blast
    then show ?thesis using c Some by simp
  next
    case None
    show ?thesis
    proof (cases "acc = []")
      case False
      obtain res' where
        "setSlice_loop x pf depth itemType (Suc i) parts acc res
           (evs @ [ParserCall itemType part]) =
         Done (acc @ slice_failures pf (Suc i) parts, res',
               (evs @ [ParserCall itemType part]) @ map (ParserCall itemType) parts)"
        using Cons.IH[OF rest] by blast
      then show ?thesis using c None False by simp
    next
      case True
      from fit c None obtain t v where r: "r = Any t v"
        and a: "assignable x (fst (ptr_wrap depth t v)) itemType"
        by (cases r) (auto simp: fit_for_element_def)
      obtain t1 v1 where w: "ptr_wrap depth t v = (t1, v1)" by (cases "ptr_wrap depth t v")
      obtain res' where
        "setSlice_loop x pf depth itemType (Suc i) parts [] (res[i := stored t1 v1 itemType])
           (evs @ [ParserCall itemType part]) =
         Done ([] @ slice_failures pf (Suc i) parts, res',
               (evs @ [ParserCall itemType part]) @ map (ParserCall itemType) parts)"
        using Cons.IH[OF rest] by blast
      then show ?thesis using c None True r a w by simp
    qed
  qed
qed

text \<open>
  The aggregation of element failures in \<^verbatim>\<open>setSlice\<close>, where every value the element
  parser returns can be stored (the parser is fit for the element type). With the raw
  text split into its parts, the element parser is called on every part, in order,
  whether or not an earlier part failed. If some part fails, the field keeps the
  value it had and the decode reports a single field error; it wraps the one element
  failure if there is exactly one, and otherwise the join of the failures of all
  failing elements.
\<close>

lemma setSlice_reports_all_element_failures:
  assumes "kind_of ft = SliceK" "elem ft = Some itemType"
    and "GetParseFunc x itemType = Found pf depth"
    and "list_all (fit_for_element x pf depth itemType) (Split raw (separator f))"
  shows "\<exists>vals. setSlice x ft field raw f p =
     (case slice_failures pf 0 (Split raw (separator f)) of
        [] \<Rightarrow> Done (VSlice (Some vals), [], map (ParserCall itemType) (Split raw (separator f)))
      | [e] \<Rightarrow> Done (field, [FieldError (keyWithPrefix p (key f)) ft e],
                     map (ParserCall itemType) (Split raw (separator f)))
      | es \<Rightarrow> Done (field, [FieldError (keyWithPrefix p (key f)) ft (Joined es)],
                    map (ParserCall itemType) (Split raw (separator f))))"
proof -
  define parts where "parts = Split raw (separator f)"
  obtain result' where loop:
    "setSlice_loop x pf depth itemType 0 parts [] (replicate (length parts) (zero itemType)) [] =
       Done (slice_failures pf 0 parts, result', map (ParserCall itemType) parts)"
    using setSlice_loop_all_parts[OF assms(4)[folded parts_def], of 0 "[]" _ "[]"] by auto
  have "setSlice x ft field raw f p =
     (case slice_failures pf 0 parts of
        [] \<Rightarrow> Done (VSlice (Some result'), [], map (ParserCall itemType) parts)
      | [e] \<Rightarrow> Done (field, [FieldError (keyWithPrefix p (key f)) ft e],
                     map (ParserCall itemType) parts)
      | es \<Rightarrow> Done (field, [FieldError (keyWithPrefix p (key f)) ft (Joined es)],
                    map (ParserCall itemType) parts))"
    using assms(1-3) loop
    by (simp add: setSlice_def parts_def[symmetric] Let_def split: list.splits)
  then show ?thesis unfolding parts_def by blast
qed


lemma setSlice_reports_all_element_failures_example:
  "setSlice no_externs (SliceOf (Basic IntK)) (VSlice None) ''1,x,y'' ints_field
     (example_env Map.empty) =
   Done (VSlice None,
         [FieldError ''INTS'' (SliceOf (Basic IntK))
            (Joined [IndexError 1 (NumError ''ParseInt'' ''x'' ErrSyntax),
                     IndexError 2 (NumError ''ParseInt'' ''y'' ErrSyntax)])],
         [ParserCall (Basic IntK) ''1'', ParserCall (Basic IntK) ''x'', ParserCall (Basic IntK) ''y''])"
proof -
  have g: "GetParseFunc no_externs (Basic IntK) = Found (Some (intParser IntK 32)) 0"
    by (intro GetParseFunc_builtin) (simp_all add: defaultBuiltInParsers_def no_externs_def)
  have sp: "Split ''1,x,y'' (separator ints_field) = [''1'', ''x'', ''y'']"
    by (simp add: ints_field_def Split_def genSplit_def Count.simps eval_nat_numeral)
  have p1: "intParser IntK 32 ''1'' = PRet (Any (Basic IntK) (VInt 1)) None"
    by (simp add: parser_defs)
  have px: "intParser IntK 32 ''x'' =
      PRet (Any (Basic IntK) (VInt 0)) (Some (NumError ''ParseInt'' ''x'' ErrSyntax))"
    by (simp add: parser_defs lower_def syntaxError_def)
  have py: "intParser IntK 32 ''y'' =
      PRet (Any (Basic IntK) (VInt 0)) (Some (NumError ''ParseInt'' ''y'' ErrSyntax))"
    by (simp add: parser_defs lower_def syntaxError_def)
  have fit: "list_all (fit_for_element no_externs (Some (intParser IntK 32)) 0 (Basic IntK))
               (Split ''1,x,y'' (separator ints_field))"
    by (simp add: sp fit_for_element_def call_def p1 px py assignable_def)
  have fl: "slice_failures (Some (intParser IntK 32)) 0 [''1'', ''x'', ''y''] =
      [IndexError 1 (NumError ''ParseInt'' ''x'' ErrSyntax),
       IndexError 2 (NumError ''ParseInt'' ''y'' ErrSyntax)]"
    by (simp add: call_def p1 px py)
  note th = setSlice_reports_all_element_failures[of "SliceOf (Basic IntK)" "Basic IntK" no_externs
         "Some (intParser IntK 32)" 0 "''1,x,y''" ints_field "VSlice None" "example_env Map.empty",
         OF _ _ g fit, unfolded sp fl list.case list.map]
  have k: "keyWithPrefix (example_env Map.empty) (key ints_field) = ''INTS''"
    by (simp add: keyWithPrefix_def example_env_def ints_field_def)
  from th show ?thesis
    unfolding k by simp
qed

lemma well_formed_pair:
  "well_formed kvsep part \<Longrightarrow> \<exists>k e. SplitN part kvsep 2 = [k, e]"
  by (auto simp: well_formed_def length_Suc_conv numeral_2_eq_2)

lemma setMap_loop_malformed:
  "\<not> well_formed kvsep part \<Longrightarrow>
   setMap_loop x kp ep keyType elemType kvsep (part # parts) acc res evs =
     Done (Some part, acc, res, evs)"
  by (auto simp: well_formed_def split: list.splits)

lemma setMap_loop_entries:
  assumes "list_all (fit_for_entry x kp ep keyType elemType kvsep) parts"
  shows "\<exists>res'. setMap_loop x kp ep keyType elemType kvsep parts acc res evs =
     Done (case dropWhile (well_formed kvsep) parts of [] \<Rightarrow> None | bad # _ \<Rightarrow> Some bad,
           acc @ concat (map (entry_failure kp ep kvsep) (takeWhile (well_formed kvsep) parts)),
           res',
           evs @ concat (map (entry_calls kp keyType elemType kvsep)
                          (takeWhile (well_formed kvsep) parts)))"
  using assms
proof (induction parts arbitrary: acc res evs)
  case Nil
  show ?case by simp
next
  case (Cons part parts)
  from Cons.prems have fit: "fit_for_entry x kp ep keyType elemType kvsep part"
    and rest: "list_all (fit_for_entry x kp ep keyType elemType kvsep) parts"
    by simp_all
  show ?case
  proof (cases "well_formed kvsep part")
    case False
    then show ?thesis unfolding setMap_loop_malformed[OF False] by simp
  next
    case True
    then obtain k e where sp: "SplitN part kvsep 2 = [k, e]"
      using well_formed_pair by blast
    from fit sp obtain kv ke where ck: "call kp k = PRet kv ke"
      by (cases "call kp k") (auto simp: fit_for_entry_def)
    show ?thesis
    proof (cases ke)
      case (Some er)
      obtain res' where
        "setMap_loop x kp ep keyType elemType kvsep parts (acc @ [KeyError k er]) res
           (evs @ [ParserCall keyType k]) =
         Done (case dropWhile (well_formed kvsep) parts of [] \<Rightarrow> None | bad # _ \<Rightarrow> Some bad,
           (acc @ [KeyError k er]) @
             concat (map (entry_failure kp ep kvsep) (takeWhile (well_formed kvsep) parts)),
           res',
           (evs @ [ParserCall keyType k]) @
             concat (map (entry_calls kp keyType elemType kvsep)
                      (takeWhile (well_formed kvsep) parts)))"
        using Cons.IH[OF rest] by blast
      moreover have "entry_failure kp ep kvsep part = [KeyError k er]"
        "entry_calls kp keyType elemType kvsep part = [ParserCall keyType k]"
        using sp ck Some by (simp_all add: entry_failure_def entry_calls_def)
      ultimately show ?thesis
        using True sp ck Some by simp
    next
      case None
      from fit sp ck None obtain ev ee where ce: "call ep e = PRet ev ee"
        by (cases "call ep e") (auto simp: fit_for_entry_def)
      show ?thesis
      proof (cases ee)
        case (Some er)
        obtain res' where
          "setMap_loop x kp ep keyType elemType kvsep parts (acc @ [ValueError e er]) res
             (evs @ [ParserCall keyType k, ParserCall elemType e]) =
           Done (case dropWhile (well_formed kvsep) parts of [] \<Rightarrow> None | bad # _ \<Rightarrow> Some bad,
             (acc @ [ValueError e er]) @
               concat (map (entry_failure kp ep kvsep) (takeWhile (well_formed kvsep) parts)),
             res',
             (evs @ [ParserCall keyType k, ParserCall elemType e]) @
               concat (map (entry_calls kp keyType elemType kvsep)
                        (takeWhile (well_formed kvsep) parts)))"
          using Cons.IH[OF rest] by blast
        moreover have "entry_failure kp ep kvsep part = [ValueError e er]"
          "entry_calls kp keyType elemType kvsep part = [ParserCall keyType k, ParserCall elemType e]"
          using sp ck ce None Some by (simp_all add: entry_failure_def entry_calls_def)
        ultimately show ?thesis
          using True sp ck ce None Some by simp
      next
        case None2: None
        from fit sp ck ce None None2 obtain kval ki eval ei
          where cv: "convert x kv keyType = Some (kval, ki)" "convert x ev elemType = Some (eval, ei)"
          by (auto simp: fit_for_entry_def)
        obtain res' where
          "setMap_loop x kp ep keyType elemType kvsep parts acc (SetMapIndex res kval eval)
             (evs @ [ParserCall keyType k, ParserCall elemType e]) =
           Done (case dropWhile (well_formed kvsep) parts of [] \<Rightarrow> None | bad # _ \<Rightarrow> Some bad,
             acc @ concat (map (entry_failure kp ep kvsep) (takeWhile (well_formed kvsep) parts)),
             res',
             (evs @ [ParserCall keyType k, ParserCall elemType e]) @
               concat (map (entry_calls kp keyType elemType kvsep)
                        (takeWhile (well_formed kvsep) parts)))"
          using Cons.IH[OF rest] by blast
        moreover have "entry_failure kp ep kvsep part = []"
          "entry_calls kp keyType elemType kvsep part = [ParserCall keyType k, ParserCall elemType e]"
          using sp ck ce None None2 by (simp_all add: entry_failure_def entry_calls_def)
        ultimately show ?thesis
          using True sp ck ce None None2 cv by simp
      qed
    qed
  qed
qed


text \<open>
  Malformed entries and parse failures in \<^verbatim>\<open>setMap\<close>, where every key and value the
  parsers return converts to the key and value types (the parsers are fit for the
  entries). With the raw text split into its entries: if some entry lacks the
  key/value separator, the decode returns at the first such entry with a single
  field error that holds the malformed-entry error alone, whatever parse errors the
  entries before it gave, and no parser is called for that entry or any entry after
  it. If every entry has the separator, the parse failures of all entries are
  collected in one field error: the one failure itself, or the join of all.
\<close>

lemma setMap_malformed_entry_is_immediate:
  assumes "map_key ft = Some keyType" "elem ft = Some elemType"
    and "GetParseFunc x keyType = Found kp kd" "GetParseFunc x elemType = Found ep ed"
    and "list_all (fit_for_entry x kp ep keyType elemType (kvSeparator f)) (Split raw (separator f))"
  shows "\<exists>m. setMap x ft field raw f p =
     (let parts = Split raw (separator f);
          calls = concat (map (entry_calls kp keyType elemType (kvSeparator f))
                           (takeWhile (well_formed (kvSeparator f)) parts))
      in case dropWhile (well_formed (kvSeparator f)) parts of
           bad # rest \<Rightarrow>
             Done (field, [FieldError (keyWithPrefix p (key f)) ft
                             (InvalidMapItemFormatError bad (kvSeparator f))], calls)
         | [] \<Rightarrow>
             (case concat (map (entry_failure kp ep (kvSeparator f)) parts) of
                [] \<Rightarrow> Done (VMap (Some m), [], calls)
              | [e] \<Rightarrow> Done (field, [FieldError (keyWithPrefix p (key f)) ft e], calls)
              | es \<Rightarrow> Done (field, [FieldError (keyWithPrefix p (key f)) ft (Joined es)], calls)))"
proof -
  let ?parts = "Split raw (separator f)"
  let ?kv = "kvSeparator f"
  let ?calls = "concat (map (entry_calls kp keyType elemType ?kv) (takeWhile (well_formed ?kv) ?parts))"
  obtain m where loop:
    "setMap_loop x kp ep keyType elemType ?kv ?parts [] [] [] =
       Done (case dropWhile (well_formed ?kv) ?parts of [] \<Rightarrow> None | bad # _ \<Rightarrow> Some bad,
             concat (map (entry_failure kp ep ?kv) (takeWhile (well_formed ?kv) ?parts)),
             m, ?calls)"
    using setMap_loop_entries[OF assms(5), of "[]" "[]" "[]"] by auto
  have sm: "setMap x ft field raw f p =
     (case setMap_loop x kp ep keyType elemType ?kv ?parts [] [] [] of
        Panic \<Rightarrow> Panic
      | Done (Some part, es, result, evs) \<Rightarrow>
          Done (field, [FieldError (keyWithPrefix p (key f)) ft
                          (InvalidMapItemFormatError part ?kv)], evs)
      | Done (None, es, result, evs) \<Rightarrow>
          (case es of
             [] \<Rightarrow> Done (VMap (Some result), [], evs)
           | [e] \<Rightarrow> Done (field, [FieldError (keyWithPrefix p (key f)) ft e], evs)
           | _ \<Rightarrow> Done (field, [FieldError (keyWithPrefix p (key f)) ft (Joined es)], evs)))"
    using assms(1-4) by (simp add: setMap_def Let_def)
  have "setMap x ft field raw f p =
     (case dropWhile (well_formed ?kv) ?parts of
        bad # rest \<Rightarrow>
          Done (field, [FieldError (keyWithPrefix p (key f)) ft
                          (InvalidMapItemFormatError bad ?kv)], ?calls)
      | [] \<Rightarrow>
          (case concat (map (entry_failure kp ep ?kv) ?parts) of
             [] \<Rightarrow> Done (VMap (Some m), [], ?calls)
           | [e] \<Rightarrow> Done (field, [FieldError (keyWithPrefix p (key f)) ft e], ?calls)
           | es \<Rightarrow> Done (field, [FieldError (keyWithPrefix p (key f)) ft (Joined es)], ?calls)))"
  proof (cases "dropWhile (well_formed ?kv) ?parts")
    case Nil
    then have all: "takeWhile (well_formed ?kv) ?parts = ?parts"
      by (metis append_Nil2 takeWhile_dropWhile_id)
    define fl where "fl = concat (map (entry_failure kp ep ?kv) ?parts)"
    show ?thesis
      unfolding sm loop Nil all fl_def[symmetric]
      by (cases fl) (simp_all split: list.splits)
  next
    case (Cons bad rest)
    show ?thesis
      unfolding sm loop Cons by simp
  qed
  then show ?thesis unfolding Let_def by blast
qed


lemma setMap_malformed_entry_is_immediate_example:
  "setMap no_externs (MapOf (Basic StringK) (Basic IntK)) (VMap None) ''a:x,b,c:1'' map_field
     (example_env Map.empty) =
   Done (VMap None,
         [FieldError ''MAP'' (MapOf (Basic StringK) (Basic IntK)) (InvalidMapItemFormatError ''b'' '':'')],
         [ParserCall (Basic StringK) ''a'', ParserCall (Basic IntK) ''x'']) \<and>
   setMap no_externs (MapOf (Basic StringK) (Basic IntK)) (VMap None) ''a:x,b:y'' map_field
     (example_env Map.empty) =
   Done (VMap None,
         [FieldError ''MAP'' (MapOf (Basic StringK) (Basic IntK))
            (Joined [ValueError ''x'' (NumError ''ParseInt'' ''x'' ErrSyntax),
                     ValueError ''y'' (NumError ''ParseInt'' ''y'' ErrSyntax)])],
         [ParserCall (Basic StringK) ''a'', ParserCall (Basic IntK) ''x'',
          ParserCall (Basic StringK) ''b'', ParserCall (Basic IntK) ''y''])"
proof -
  let ?kp = "Some (\<lambda>v. PRet (Any (Basic StringK) (VString v)) None)"
  let ?ep = "Some (intParser IntK 32)"
  have gk: "GetParseFunc no_externs (Basic StringK) = Found ?kp 0"
    by (intro GetParseFunc_builtin) (simp_all add: defaultBuiltInParsers_def no_externs_def)
  have ge: "GetParseFunc no_externs (Basic IntK) = Found ?ep 0"
    by (intro GetParseFunc_builtin) (simp_all add: defaultBuiltInParsers_def no_externs_def)
  have sep: "separator map_field = '',''" "kvSeparator map_field = '':''"
    by (simp_all add: map_field_def)
  have sp1: "Split ''a:x,b,c:1'' '','' = [''a:x'', ''b'', ''c:1'']"
    and sp2: "Split ''a:x,b:y'' '','' = [''a:x'', ''b:y'']"
    by (simp_all add: Split_def genSplit_def Count.simps eval_nat_numeral)
  have kv: "SplitN ''a:x'' '':'' 2 = [''a'', ''x'']" "SplitN ''b'' '':'' 2 = [''b'']"
    "SplitN ''c:1'' '':'' 2 = [''c'', ''1'']" "SplitN ''b:y'' '':'' 2 = [''b'', ''y'']"
    by (simp_all add: SplitN_def genSplit_def Count.simps eval_nat_numeral)
  have p1: "intParser IntK 32 ''1'' = PRet (Any (Basic IntK) (VInt 1)) None"
    by (simp add: parser_defs)
  have px: "intParser IntK 32 ''x'' =
      PRet (Any (Basic IntK) (VInt 0)) (Some (NumError ''ParseInt'' ''x'' ErrSyntax))"
    by (simp add: parser_defs lower_def syntaxError_def)
  have py: "intParser IntK 32 ''y'' =
      PRet (Any (Basic IntK) (VInt 0)) (Some (NumError ''ParseInt'' ''y'' ErrSyntax))"
    by (simp add: parser_defs lower_def syntaxError_def)
  have wf: "well_formed '':'' ''a:x''" "\<not> well_formed '':'' ''b''" "well_formed '':'' ''c:1''"
    "well_formed '':'' ''b:y''"
    by (simp_all add: well_formed_def kv)
  have fit1: "list_all (fit_for_entry no_externs ?kp ?ep (Basic StringK) (Basic IntK)
                 (kvSeparator map_field)) (Split ''a:x,b,c:1'' (separator map_field))"
    by (simp add: sep sp1 fit_for_entry_def kv call_def p1 px convert_def)
  have fit2: "list_all (fit_for_entry no_externs ?kp ?ep (Basic StringK) (Basic IntK)
                 (kvSeparator map_field)) (Split ''a:x,b:y'' (separator map_field))"
    by (simp add: sep sp2 fit_for_entry_def kv call_def px py convert_def)
  have k: "keyWithPrefix (example_env Map.empty) (key map_field) = ''MAP''"
    by (simp add: keyWithPrefix_def example_env_def map_field_def)
  have ef: "entry_failure ?kp ?ep '':'' ''a:x'' = [ValueError ''x'' (NumError ''ParseInt'' ''x'' ErrSyntax)]"
    "entry_failure ?kp ?ep '':'' ''b:y'' = [ValueError ''y'' (NumError ''ParseInt'' ''y'' ErrSyntax)]"
    by (simp_all add: entry_failure_def kv call_def px py)
  have ec: "entry_calls ?kp (Basic StringK) (Basic IntK) '':'' ''a:x'' =
      [ParserCall (Basic StringK) ''a'', ParserCall (Basic IntK) ''x'']"
    "entry_calls ?kp (Basic StringK) (Basic IntK) '':'' ''b:y'' =
      [ParserCall (Basic StringK) ''b'', ParserCall (Basic IntK) ''y'']"
    by (simp_all add: entry_calls_def kv call_def)
  note t1 = setMap_malformed_entry_is_immediate[of "MapOf (Basic StringK) (Basic IntK)"
      "Basic StringK" "Basic IntK" no_externs ?kp 0 ?ep 0 map_field "''a:x,b,c:1''"
      "VMap None" "example_env Map.empty", OF _ _ gk ge fit1]
  note t2 = setMap_malformed_entry_is_immediate[of "MapOf (Basic StringK) (Basic IntK)"
      "Basic StringK" "Basic IntK" no_externs ?kp 0 ?ep 0 map_field "''a:x,b:y''"
      "VMap None" "example_env Map.empty", OF _ _ gk ge fit2]
  from t1 have "setMap no_externs (MapOf (Basic StringK) (Basic IntK)) (VMap None) ''a:x,b,c:1''
      map_field (example_env Map.empty) =
    Done (VMap None,
         [FieldError ''MAP'' (MapOf (Basic StringK) (Basic IntK)) (InvalidMapItemFormatError ''b'' '':'')],
         [ParserCall (Basic StringK) ''a'', ParserCall (Basic IntK) ''x''])"
    by (simp add: sep sp1 wf k ec)
  moreover from t2 have "setMap no_externs (MapOf (Basic StringK) (Basic IntK)) (VMap None) ''a:x,b:y''
      map_field (example_env Map.empty) =
    Done (VMap None,
         [FieldError ''MAP'' (MapOf (Basic StringK) (Basic IntK))
            (Joined [ValueError ''x'' (NumError ''ParseInt'' ''x'' ErrSyntax),
                     ValueError ''y'' (NumError ''ParseInt'' ''y'' ErrSyntax)])],
         [ParserCall (Basic StringK) ''a'', ParserCall (Basic IntK) ''x'',
          ParserCall (Basic StringK) ''b'', ParserCall (Basic IntK) ''y''])"
    by (simp add: sep sp2 wf k ef ec)
  ultimately show ?thesis by simp
qed

lemma sum_update_index:
  fixes f g :: "nat \<Rightarrow> 'a::comm_monoid_add"
  assumes "i < n" "\<And>j. j < n \<Longrightarrow> j \<noteq> i \<Longrightarrow> g j = f j"
  shows "sum g {..<n} + f i = sum f {..<n} + g i"
proof -
  have i: "i \<in> {..<n}" using assms(1) by simp
  have "sum g ({..<n} - {i}) = sum f ({..<n} - {i})"
    by (rule sum.cong) (auto simp: assms(2))
  then show ?thesis
    by (simp add: sum.remove[OF _ i] ac_simps)
qed

lemma sum_same_index:
  fixes f g :: "nat \<Rightarrow> 'a::cancel_comm_monoid_add"
  assumes "i < n" "\<And>j. j < n \<Longrightarrow> j \<noteq> i \<Longrightarrow> g j = f j" "g i = f i"
  shows "sum g {..<n} = sum f {..<n}"
  using sum_update_index[where f = f and g = g and i = i and n = n] assms by simp

lemma sched_inv_init: "sched_inv jobs (sched_init jobs)"
  by (simp add: sched_inv_def sched_init_def appended_def reported_def)


lemma sched_inv_goroutine_step:
  assumes inv: "sched_inv jobs s" and i: "i < length jobs"
    and live: "pcs s ! i \<noteq> Exited"
    and pcs': "pcs s' = (pcs s)[i := c]"
    and ret': "returned s' = (returned s)[i := ro]"
    and retval': "retval s' = retval s"
    and wg': "wg s' = wg s - (if c = Exited then 1 else 0)"
    and errs': "mset (errs s') + (if appended (pcs s ! i) then mset (reported (returned s ! i)) else {#}) =
                mset (errs s) + (if appended c then mset (reported ro) else {#})"
    and loc: "\<And>e. c = AtAppend e \<Longrightarrow> reported ro = [e]"
      "(c = NotStarted \<or> c = InJob) \<longleftrightarrow> ro = None"
      "\<And>r. ro = Some r \<Longrightarrow> \<exists>cc. r = (jobs ! i) cc"
  shows "sched_inv jobs s'"
proof -
  let ?n = "length jobs"
  from inv have len: "length (pcs s) = ?n" "length (returned s) = ?n"
    and wg: "wg s = (\<Sum>j<?n. if pcs s ! j = Exited then 0 else 1)"
    and er: "mset (errs s) =
        (\<Sum>j<?n. if appended (pcs s ! j) then mset (reported (returned s ! j)) else {#})"
    and per: "\<And>j. j < ?n \<Longrightarrow>
         (\<forall>e. pcs s ! j = AtAppend e \<longrightarrow> reported (returned s ! j) = [e]) \<and>
         ((pcs s ! j = NotStarted \<or> pcs s ! j = InJob) \<longleftrightarrow> returned s ! j = None) \<and>
         (\<forall>r. returned s ! j = Some r \<longrightarrow> (\<exists>c. r = (jobs ! j) c))"
    and rv: "\<And>r. retval s = Some r \<Longrightarrow> (\<forall>j<?n. pcs s ! j = Exited)"
    by (simp_all add: sched_inv_def)
  have none: "retval s = None"
  proof (cases "retval s")
    case (Some r)
    with rv[OF Some] i live show ?thesis by blast
  qed simp
  let ?f = "\<lambda>j. if pcs s ! j = Exited then (0::int) else 1"
  let ?g = "\<lambda>j. if pcs s' ! j = Exited then (0::int) else 1"
  have eq: "sum ?g {..<?n} + ?f i = sum ?f {..<?n} + ?g i"
    by (rule sum_update_index[OF i]) (simp add: pcs')
  have fi: "?f i = 1" using live by simp
  have gi: "?g i = (if c = Exited then 0 else 1)" using i len by (simp add: pcs')
  have "sum ?g {..<?n} = sum ?f {..<?n} - (if c = Exited then 1 else 0)"
    using eq unfolding fi gi by (cases "c = Exited") simp_all
  then have wg2: "wg s' = (\<Sum>j<?n. if pcs s' ! j = Exited then 0 else 1)"
    unfolding wg' wg by simp
  let ?F = "\<lambda>j. if appended (pcs s ! j) then mset (reported (returned s ! j)) else {#}"
  let ?G = "\<lambda>j. if appended (pcs s' ! j) then mset (reported (returned s' ! j)) else {#}"
  have eqm: "sum ?G {..<?n} + ?F i = sum ?F {..<?n} + ?G i"
    by (rule sum_update_index[OF i]) (simp add: pcs' ret')
  have Gi: "?G i = (if appended c then mset (reported ro) else {#})"
    using i len by (simp add: pcs' ret')
  have "sum ?G {..<?n} + ?F i = mset (errs s') + ?F i"
    unfolding eqm Gi er[symmetric] errs' ..
  then have er2: "mset (errs s') = sum ?G {..<?n}"
    by simp
  have per2: "(\<forall>e. pcs s' ! j = AtAppend e \<longrightarrow> reported (returned s' ! j) = [e]) \<and>
         ((pcs s' ! j = NotStarted \<or> pcs s' ! j = InJob) \<longleftrightarrow> returned s' ! j = None) \<and>
         (\<forall>r. returned s' ! j = Some r \<longrightarrow> (\<exists>c. r = (jobs ! j) c))" if j: "j < ?n" for j
  proof (cases "j = i")
    case True
    then show ?thesis using loc i len by (auto simp: pcs' ret')
  next
    case False
    then show ?thesis using per[OF j] by (simp add: pcs' ret')
  qed
  show ?thesis
    unfolding sched_inv_def
    using len wg2 er2 per2 none by (simp add: pcs' ret' retval')
qed


lemma sched_inv_per:
  assumes "sched_inv jobs s" "i < length jobs"
  shows "\<And>e. pcs s ! i = AtAppend e \<Longrightarrow> reported (returned s ! i) = [e]"
    and "(pcs s ! i = NotStarted \<or> pcs s ! i = InJob) \<longleftrightarrow> returned s ! i = None"
    and "\<And>r. returned s ! i = Some r \<Longrightarrow> \<exists>c. r = (jobs ! i) c"
    and "length (pcs s) = length jobs" "length (returned s) = length jobs"
  using assms by (simp_all add: sched_inv_def)

lemma all_exited_of_wg_0:
  assumes "sched_inv jobs s" "wg s = 0"
  shows "\<forall>i<length jobs. pcs s ! i = Exited"
proof -
  from assms have "(\<Sum>i<length jobs. if pcs s ! i = Exited then (0::int) else 1) = 0"
    by (simp add: sched_inv_def)
  then have "\<forall>i\<in>{..<length jobs}. (if pcs s ! i = Exited then (0::int) else 1) = 0"
    by (subst (asm) sum_nonneg_eq_0_iff) auto
  then show ?thesis by (auto split: if_splits)
qed

lemma sched_inv_step:
  assumes inv: "sched_inv jobs s" and st: "sched_step jobs s s'"
  shows "sched_inv jobs s'"
  using st
proof cases
  case (go_job i)
  note per = sched_inv_per[OF inv go_job(3)]
  show ?thesis
  proof (rule sched_inv_goroutine_step[OF inv go_job(3), where c = InJob and ro = "returned s ! i"])
    show "pcs s ! i \<noteq> Exited" using go_job by simp
    show "returned s' = (returned s)[i := returned s ! i]" using go_job by simp
    show "(InJob = NotStarted \<or> InJob = InJob) \<longleftrightarrow> returned s ! i = None"
      using per(2) go_job by simp
  qed (use go_job per in \<open>simp_all add: appended_def\<close>)
next
  case (job_returns i r)
  note per = sched_inv_per[OF inv job_returns(2)]
  let ?c = "case omitContextErr r of None \<Rightarrow> AtDone | Some e \<Rightarrow> AtAppend e"
  show ?thesis
  proof (rule sched_inv_goroutine_step[OF inv job_returns(2), where c = ?c and ro = "Some r"])
    show "pcs s ! i \<noteq> Exited" using job_returns by simp
    show "\<exists>cc. r' = (jobs ! i) cc" if "Some r = Some r'" for r'
      using that job_returns(4) by auto
  qed (use job_returns per in \<open>auto simp: appended_def reported_def split: option.splits\<close>)
next
  case (append i e)
  note per = sched_inv_per[OF inv append(2)]
  show ?thesis
  proof (rule sched_inv_goroutine_step[OF inv append(2), where c = AtCancel and ro = "returned s ! i"])
    show "pcs s ! i \<noteq> Exited" using append by simp
    show "returned s' = (returned s)[i := returned s ! i]" using append by simp
    show "(AtCancel = NotStarted \<or> AtCancel = InJob) \<longleftrightarrow> returned s ! i = None"
      using per(2) append by simp
    show "mset (errs s') + (if appended (pcs s ! i) then mset (reported (returned s ! i)) else {#}) =
          mset (errs s) + (if appended AtCancel then mset (reported (returned s ! i)) else {#})"
      using append per(1)[of e] by (simp add: appended_def)
  qed (use append per in \<open>simp_all add: appended_def\<close>)
next
  case (cancel i)
  note per = sched_inv_per[OF inv cancel(2)]
  show ?thesis
  proof (rule sched_inv_goroutine_step[OF inv cancel(2), where c = AtDone and ro = "returned s ! i"])
    show "pcs s ! i \<noteq> Exited" using cancel by simp
    show "returned s' = (returned s)[i := returned s ! i]" using cancel by simp
    show "(AtDone = NotStarted \<or> AtDone = InJob) \<longleftrightarrow> returned s ! i = None"
      using per(2) cancel by simp
  qed (use cancel per in \<open>simp_all add: appended_def\<close>)
next
  case (wg_done i)
  note per = sched_inv_per[OF inv wg_done(2)]
  show ?thesis
  proof (rule sched_inv_goroutine_step[OF inv wg_done(2), where c = Exited and ro = "returned s ! i"])
    show "pcs s ! i \<noteq> Exited" using wg_done by simp
    show "returned s' = (returned s)[i := returned s ! i]" using wg_done by simp
    show "(Exited = NotStarted \<or> Exited = InJob) \<longleftrightarrow> returned s ! i = None"
      using per(2) wg_done by simp
  qed (use wg_done per in \<open>simp_all add: appended_def\<close>)
next
  case parent_cancel
  then have f: "pcs s' = pcs s" "returned s' = returned s" "errs s' = errs s" "wg s' = wg s"
    "retval s' = retval s"
    by simp_all
  show ?thesis using inv unfolding sched_inv_def f .
next
  case wait_returns
  then have f: "pcs s' = pcs s" "returned s' = returned s" "errs s' = errs s" "wg s' = wg s"
    and r: "retval s' = Some (errors_Join (map Some (errs s)))"
    by simp_all
  from inv have "length (pcs s) = length jobs \<and> length (returned s) = length jobs \<and>
      wg s = (\<Sum>i<length jobs. if pcs s ! i = Exited then 0 else 1) \<and>
      mset (errs s) =
        (\<Sum>i<length jobs. if appended (pcs s ! i) then mset (reported (returned s ! i)) else {#}) \<and>
      (\<forall>i<length jobs.
         (\<forall>e. pcs s ! i = AtAppend e \<longrightarrow> reported (returned s ! i) = [e]) \<and>
         ((pcs s ! i = NotStarted \<or> pcs s ! i = InJob) \<longleftrightarrow> returned s ! i = None) \<and>
         (\<forall>r. returned s ! i = Some r \<longrightarrow> (\<exists>c. r = (jobs ! i) c)))"
    unfolding sched_inv_def by blast
  moreover have "\<forall>r. retval s' = Some r \<longrightarrow>
         (\<forall>i<length jobs. pcs s ! i = Exited) \<and> r = errors_Join (map Some (errs s))"
    using all_exited_of_wg_0[OF inv wait_returns(4)] r by simp
  ultimately show ?thesis unfolding sched_inv_def f by blast
qed

lemma sched_reach_inv: "sched_reach jobs s \<Longrightarrow> sched_inv jobs s"
  by (induction rule: sched_reach.induct) (auto intro: sched_inv_init sched_inv_step)


lemma steps_left_decrease:
  assumes i: "i < n" and len: "length ps = n" and less: "steps_left c < steps_left (ps ! i)"
  shows "(\<Sum>j<n. steps_left (ps[i := c] ! j)) < (\<Sum>j<n. steps_left (ps ! j))"
proof -
  let ?f = "\<lambda>j. steps_left (ps ! j)"
  let ?g = "\<lambda>j. steps_left (ps[i := c] ! j)"
  have "sum ?g {..<n} + ?f i = sum ?f {..<n} + ?g i"
    by (rule sum_update_index[OF i]) simp
  moreover have "?g i = steps_left c" using i len by simp
  ultimately show ?thesis using less by linarith
qed

lemma sched_can_step:
  assumes inv: "sched_inv jobs s" and none: "retval s = None"
    and i: "i < length jobs" and live: "pcs s ! i \<noteq> Exited"
  shows "\<exists>s'. sched_step jobs s s' \<and> retval s' = None \<and>
           (\<Sum>j<length jobs. steps_left (pcs s' ! j)) < (\<Sum>j<length jobs. steps_left (pcs s ! j))"
proof -
  have len: "length (pcs s) = length jobs" using inv by (simp add: sched_inv_def)
  show ?thesis
  proof (cases "\<exists>k<length jobs. pcs s ! k = NotStarted")
    case True
    then have "\<exists>k. k < length jobs \<and> pcs s ! k = NotStarted" by blast
    then obtain k where k: "k < length jobs \<and> pcs s ! k = NotStarted"
      and least: "\<forall>m<k. \<not> (m < length jobs \<and> pcs s ! m = NotStarted)"
      unfolding exists_least_iff[of "\<lambda>k. k < length jobs \<and> pcs s ! k = NotStarted"] by blast
    from k least have "\<forall>j<k. pcs s ! j \<noteq> NotStarted" by auto
    with none k have "sched_step jobs s (s\<lparr> pcs := (pcs s)[k := InJob] \<rparr>)"
      by (intro sched_step.go_job) auto
    moreover have "(\<Sum>j<length jobs. steps_left ((pcs s)[k := InJob] ! j))
        < (\<Sum>j<length jobs. steps_left (pcs s ! j))"
      using k by (intro steps_left_decrease len) auto
    ultimately show ?thesis using none
      by (intro exI[of _ "s\<lparr> pcs := (pcs s)[k := InJob] \<rparr>"]) simp
  next
    case False
    with i have ns: "pcs s ! i \<noteq> NotStarted" by blast
    show ?thesis
    proof (cases "pcs s ! i")
      case NotStarted
      with ns show ?thesis by simp
    next
      case InJob
      let ?r = "(jobs ! i) (cancelled s)"
      let ?c = "case omitContextErr ?r of None \<Rightarrow> AtDone | Some e \<Rightarrow> AtAppend e"
      let ?s = "s\<lparr> pcs := (pcs s)[i := ?c], returned := (returned s)[i := Some ?r] \<rparr>"
      have "sched_step jobs s ?s" using i InJob by (intro sched_step.job_returns) auto
      moreover have "steps_left ?c < steps_left (pcs s ! i)"
        using InJob by (simp split: option.splits)
      then have "(\<Sum>j<length jobs. steps_left ((pcs s)[i := ?c] ! j))
          < (\<Sum>j<length jobs. steps_left (pcs s ! j))"
        by (intro steps_left_decrease len i)
      ultimately show ?thesis using none by (intro exI[of _ ?s]) simp
    next
      case (AtAppend e)
      let ?s = "s\<lparr> pcs := (pcs s)[i := AtCancel], errs := errs s @ [e] \<rparr>"
      have "sched_step jobs s ?s" using i AtAppend by (intro sched_step.append) auto
      moreover have "(\<Sum>j<length jobs. steps_left ((pcs s)[i := AtCancel] ! j))
          < (\<Sum>j<length jobs. steps_left (pcs s ! j))"
        using AtAppend by (intro steps_left_decrease len i) simp
      ultimately show ?thesis using none by (intro exI[of _ ?s]) simp
    next
      case AtCancel
      let ?s = "s\<lparr> pcs := (pcs s)[i := AtDone], cancelled := True \<rparr>"
      have "sched_step jobs s ?s" using i AtCancel by (intro sched_step.cancel) auto
      moreover have "(\<Sum>j<length jobs. steps_left ((pcs s)[i := AtDone] ! j))
          < (\<Sum>j<length jobs. steps_left (pcs s ! j))"
        using AtCancel by (intro steps_left_decrease len i) simp
      ultimately show ?thesis using none by (intro exI[of _ ?s]) simp
    next
      case AtDone
      let ?s = "s\<lparr> pcs := (pcs s)[i := Exited], wg := wg s - 1 \<rparr>"
      have "sched_step jobs s ?s" using i AtDone by (intro sched_step.wg_done) auto
      moreover have "(\<Sum>j<length jobs. steps_left ((pcs s)[i := Exited] ! j))
          < (\<Sum>j<length jobs. steps_left (pcs s ! j))"
        using AtDone by (intro steps_left_decrease len i) simp
      ultimately show ?thesis using none by (intro exI[of _ ?s]) simp
    next
      case Exited
      with live show ?thesis by simp
    qed
  qed
qed

lemma sched_progress:
  assumes "sched_inv jobs s" "retval s = None"
  shows "\<exists>s'. (sched_step jobs)\<^sup>*\<^sup>* s s' \<and> retval s' \<noteq> None"
  using assms
proof (induction "\<Sum>j<length jobs. steps_left (pcs s ! j)" arbitrary: s rule: less_induct)
  case less
  show ?case
  proof (cases "\<forall>i<length jobs. pcs s ! i = Exited")
    case True
    then have "(\<Sum>i<length jobs. if pcs s ! i = Exited then (0::int) else 1) = 0" by simp
    with less.prems have "wg s = 0" by (simp add: sched_inv_def)
    with less.prems True
    have "sched_step jobs s (s\<lparr> retval := Some (errors_Join (map Some (errs s))), cancelled := True \<rparr>)"
      by (intro sched_step.wait_returns) auto
    then have "(sched_step jobs)\<^sup>*\<^sup>* s
        (s\<lparr> retval := Some (errors_Join (map Some (errs s))), cancelled := True \<rparr>)"
      by (rule r_into_rtranclp)
    then show ?thesis
      by (intro exI[of _ "s\<lparr> retval := Some (errors_Join (map Some (errs s))), cancelled := True \<rparr>"]) simp
  next
    case False
    then obtain i where "i < length jobs" "pcs s ! i \<noteq> Exited" by blast
    from sched_can_step[OF less.prems this] obtain s1 where
      st: "sched_step jobs s s1" and none: "retval s1 = None"
      and dec: "(\<Sum>j<length jobs. steps_left (pcs s1 ! j)) < (\<Sum>j<length jobs. steps_left (pcs s ! j))"
      by blast
    from sched_inv_step[OF less.prems(1) st] have "sched_inv jobs s1" .
    from less.hyps[OF dec this none] obtain s' where
      "(sched_step jobs)\<^sup>*\<^sup>* s1 s'" "retval s' \<noteq> None" by blast
    with st show ?thesis by (meson converse_rtranclp_into_rtranclp)
  qed
qed


lemma sum_nth_mset_concat: "(\<Sum>i<length xs. mset (f (xs ! i))) = mset (concat (map f xs))"
  by (induction xs) (simp_all add: sum.lessThan_Suc_shift del: sum.lessThan_Suc)

lemma job_failures_reported: "job_failures rs = concat (map reported rs)"
  unfolding job_failures_def
  by (intro arg_cong[where f = concat] map_cong refl)
     (simp add: reported_def omitContextErr_def cancellation_class_def split: option.splits)

lemma errors_Join_all_Some:
  "errors_Join (map Some es) = (if es = [] then None else Some (Joined es))"
proof (cases "es = []")
  case True
  then show ?thesis by (simp add: errors_Join_def)
next
  case False
  then show ?thesis using errors_Join_Some[OF False] by simp
qed

text \<open>
  Claim C4. In every execution of \<^verbatim>\<open>RunJobs\<close> on a list of jobs (each of which
  returns), from every state a state in which \<^verbatim>\<open>RunJobs\<close> has returned can be
  reached; and in a state in which it has returned, every goroutine has gone past
  \<^verbatim>\<open>wg.Done()\<close> and its job has returned, the collected errors are, up to their order,
  the errors the jobs returned that are not cancellation-class errors, and the result
  is nil if there is no such error and the join of the collected errors otherwise.
\<close>

theorem RunJobs_waits_and_joins:
  assumes reach: "sched_reach jobs s"
  shows "(\<exists>s'. (sched_step jobs)\<^sup>*\<^sup>* s s' \<and> retval s' \<noteq> None) \<and>
         (\<forall>r. retval s = Some r \<longrightarrow>
            length (returned s) = length jobs \<and>
            (\<forall>i<length jobs. pcs s ! i = Exited \<and> (\<exists>c. returned s ! i = Some ((jobs ! i) c))) \<and>
            mset (errs s) = mset (job_failures (returned s)) \<and>
            r = (if job_failures (returned s) = [] then None else Some (Joined (errs s))))"
proof -
  from reach have inv: "sched_inv jobs s" by (rule sched_reach_inv)
  have returns: "\<exists>s'. (sched_step jobs)\<^sup>*\<^sup>* s s' \<and> retval s' \<noteq> None"
  proof (cases "retval s")
    case None
    with inv show ?thesis by (rule sched_progress)
  next
    case (Some r)
    then have "(sched_step jobs)\<^sup>*\<^sup>* s s \<and> retval s \<noteq> None" by simp
    then show ?thesis ..
  qed
  have len: "length (returned s) = length jobs" using inv by (simp add: sched_inv_def)
  have "length (returned s) = length jobs \<and>
        (\<forall>i<length jobs. pcs s ! i = Exited \<and> (\<exists>c. returned s ! i = Some ((jobs ! i) c))) \<and>
        mset (errs s) = mset (job_failures (returned s)) \<and>
        r = (if job_failures (returned s) = [] then None else Some (Joined (errs s)))"
    if ret: "retval s = Some r" for r
  proof (intro conjI)
  from inv ret have ex: "\<forall>i<length jobs. pcs s ! i = Exited"
    and r: "r = errors_Join (map Some (errs s))"
    by (simp_all add: sched_inv_def)
  show "length (returned s) = length jobs" by (rule len)
  show "\<forall>i<length jobs. pcs s ! i = Exited \<and> (\<exists>c. returned s ! i = Some ((jobs ! i) c))"
  proof (intro allI impI conjI)
    fix i assume i: "i < length jobs"
    with ex show e: "pcs s ! i = Exited" by simp
    with sched_inv_per(2)[OF inv i] obtain r' where r': "returned s ! i = Some r'" by auto
    with sched_inv_per(3)[OF inv i] show "\<exists>c. returned s ! i = Some ((jobs ! i) c)" by auto
  qed
  have "mset (errs s) =
      (\<Sum>i<length jobs. if appended (pcs s ! i) then mset (reported (returned s ! i)) else {#})"
    using inv by (simp add: sched_inv_def)
  also have "\<dots> = (\<Sum>i<length (returned s). mset (reported (returned s ! i)))"
    unfolding len by (rule sum.cong) (simp_all add: ex appended_def)
  also have "\<dots> = mset (job_failures (returned s))"
    unfolding job_failures_reported by (rule sum_nth_mset_concat)
  finally show m: "mset (errs s) = mset (job_failures (returned s))" .
  then have "(errs s = []) = (job_failures (returned s) = [])"
    by (metis mset_zero_iff)
  with r show "r = (if job_failures (returned s) = [] then None else Some (Joined (errs s)))"
    by (simp add: errors_Join_all_Some)
  qed
  with returns show ?thesis by blast
qed


theorem RunJobs_waits_and_joins_witness:
  "sched_reach two_jobs (last two_jobs_run) \<and>
   retval (last two_jobs_run) = Some (Some (Joined [Opaque ''disk full''])) \<and>
   returned (last two_jobs_run) = [Some (Some (Opaque ''disk full'')), Some (Some Canceled)] \<and>
   job_failures (returned (last two_jobs_run)) = [Opaque ''disk full''] \<and>
   mset (errs (last two_jobs_run)) = mset (job_failures (returned (last two_jobs_run))) \<and>
   Some (Joined [Opaque ''disk full'']) =
     (if job_failures (returned (last two_jobs_run)) = [] then None
      else Some (Joined (errs (last two_jobs_run))))"
proof -
  let ?e = "Opaque ''disk full''"
  let ?a = "Some (Some ?e)"
  let ?b = "Some (Some Canceled)"
  let ?s0 = "sched_state [NotStarted, NotStarted] [None, None] [] False 2 None"
  let ?s1 = "sched_state [InJob, NotStarted] [None, None] [] False 2 None"
  let ?s2 = "sched_state [InJob, InJob] [None, None] [] False 2 None"
  let ?s3 = "sched_state [AtAppend ?e, InJob] [?a, None] [] False 2 None"
  let ?s4 = "sched_state [AtCancel, InJob] [?a, None] [?e] False 2 None"
  let ?s5 = "sched_state [AtDone, InJob] [?a, None] [?e] True 2 None"
  let ?s6 = "sched_state [AtDone, AtDone] [?a, ?b] [?e] True 2 None"
  let ?s7 = "sched_state [Exited, AtDone] [?a, ?b] [?e] True 1 None"
  let ?s8 = "sched_state [Exited, Exited] [?a, ?b] [?e] True 0 None"
  let ?s9 = "sched_state [Exited, Exited] [?a, ?b] [?e] True 0 (Some (Some (Joined [?e])))"
  have fin: "last two_jobs_run = ?s9" by (simp add: two_jobs_run_def Let_def)
  have omit: "omitContextErr (Some ?e) = Some ?e" "omitContextErr (Some Canceled) = None"
    by (simp_all add: omitContextErr_def)
  have "sched_init two_jobs = ?s0"
    by (simp add: sched_init_def two_jobs_def sched_state_def)
  with sched_reach.init[of two_jobs] have r0: "sched_reach two_jobs ?s0" by simp
  have "sched_step two_jobs ?s0 ?s1"
    using sched_step.go_job[where s = ?s0 and i = 0 and jobs = two_jobs]
    by (simp add: sched_state_def two_jobs_def)
  with r0 have r1: "sched_reach two_jobs ?s1" by (rule sched_reach.step)
  have "sched_step two_jobs ?s1 ?s2"
    using sched_step.go_job[where s = ?s1 and i = 1 and jobs = two_jobs]
    by (simp add: sched_state_def two_jobs_def)
  with r1 have r2: "sched_reach two_jobs ?s2" by (rule sched_reach.step)
  have "sched_step two_jobs ?s2 ?s3"
    using sched_step.job_returns[where s = ?s2 and i = 0 and jobs = two_jobs, OF _ _ refl]
    by (simp add: sched_state_def two_jobs_def omit)
  with r2 have r3: "sched_reach two_jobs ?s3" by (rule sched_reach.step)
  have "sched_step two_jobs ?s3 ?s4"
    using sched_step.append[where s = ?s3 and i = 0 and jobs = two_jobs and e = ?e]
    by (simp add: sched_state_def two_jobs_def)
  with r3 have r4: "sched_reach two_jobs ?s4" by (rule sched_reach.step)
  have "sched_step two_jobs ?s4 ?s5"
    using sched_step.cancel[where s = ?s4 and i = 0 and jobs = two_jobs]
    by (simp add: sched_state_def two_jobs_def)
  with r4 have r5: "sched_reach two_jobs ?s5" by (rule sched_reach.step)
  have "sched_step two_jobs ?s5 ?s6"
    using sched_step.job_returns[where s = ?s5 and i = 1 and jobs = two_jobs, OF _ _ refl]
    by (simp add: sched_state_def two_jobs_def omit)
  with r5 have r6: "sched_reach two_jobs ?s6" by (rule sched_reach.step)
  have "sched_step two_jobs ?s6 ?s7"
    using sched_step.wg_done[where s = ?s6 and i = 0 and jobs = two_jobs]
    by (simp add: sched_state_def two_jobs_def)
  with r6 have r7: "sched_reach two_jobs ?s7" by (rule sched_reach.step)
  have "sched_step two_jobs ?s7 ?s8"
    using sched_step.wg_done[where s = ?s7 and i = 1 and jobs = two_jobs]
    by (simp add: sched_state_def two_jobs_def)
  with r7 have r8: "sched_reach two_jobs ?s8" by (rule sched_reach.step)
  have "sched_step two_jobs ?s8 ?s9"
    using sched_step.wait_returns[where s = ?s8 and jobs = two_jobs]
    by (simp add: sched_state_def two_jobs_def errors_Join_def less_Suc_eq)
  with r8 have "sched_reach two_jobs ?s9" by (rule sched_reach.step)
  then have reach: "sched_reach two_jobs (last two_jobs_run)" unfolding fin .
  have ret: "retval (last two_jobs_run) = Some (Some (Joined [?e]))"
    and rs: "returned (last two_jobs_run) = [?a, ?b]"
    unfolding fin by (simp_all add: sched_state_def)
  have fl: "job_failures (returned (last two_jobs_run)) = [?e]"
    unfolding rs by (simp add: job_failures_def cancellation_class_def)
  from RunJobs_waits_and_joins[OF reach] ret
  have "mset (errs (last two_jobs_run)) = mset (job_failures (returned (last two_jobs_run)))"
    and "Some (Joined [?e]) =
      (if job_failures (returned (last two_jobs_run)) = [] then None
       else Some (Joined (errs (last two_jobs_run))))"
    by blast+
  with reach ret rs fl show ?thesis by blast
qed

lemma Split_1xy: "Split ''1,x,y'' '','' = [''1'', ''x'', ''y'']"
  by (simp add: Split_def genSplit_def Count.simps eval_nat_numeral)

lemma intParser_1: "intParser IntK 32 ''1'' = PRet (Any (Basic IntK) (VInt 1)) None"
  by (simp add: parser_defs)

lemma GetParseFunc_MyInt: "GetParseFunc no_externs MyInt = Found (Some (intParser IntK 32)) 0"
  unfolding MyInt_def
  by (intro GetParseFunc_builtin) (simp_all add: defaultBuiltInParsers_def no_externs_def)

text \<open>
  Claim C5, at the input where the code departs from it. A field of type \<^verbatim>\<open>[]MyInt\<close>
  with the raw text \<^verbatim>\<open>"1,x,y"\<close>: the element parser is the built-in parser of the
  kind, which returns an \<^verbatim>\<open>int\<close>; \<^verbatim>\<open>setSlice\<close> stores it with \<^verbatim>\<open>Set\<close> and without
  \<^verbatim>\<open>Convert\<close>, so the decode panics at the first element, before the parser is called
  on \<^verbatim>\<open>x\<close> and \<^verbatim>\<open>y\<close>, and reports no field error. A field of type \<^verbatim>\<open>MyInt\<close> itself is
  decoded: \<^verbatim>\<open>setValue\<close> converts what the parser returns.
\<close>

theorem setSlice_defined_element_type_panics:
  "GetParseFunc no_externs MyInt = Found (Some (intParser IntK 32)) 0 \<and>
   setSlice no_externs (SliceOf MyInt) (VSlice None) ''1,x,y'' ints_field (example_env Map.empty) = Panic \<and>
   setValue no_externs (example_env [''INTS'' \<mapsto> ''1,x,y'']) (SliceOf MyInt) (VSlice None) ints_field [] = Panic \<and>
   setValue no_externs (example_env [''INTS'' \<mapsto> ''1'']) MyInt (VInt 0) ints_field [] =
     Done (VInt 1, [], [ParserCall MyInt ''1'', OnSetCall ''INTS'' (Any MyInt (VInt 1)) False])"
proof -
  have na: "\<not> assignable no_externs (Basic IntK) MyInt"
    by (simp add: assignable_def MyInt_def no_externs_def)
  have cv: "convert no_externs (Any (Basic IntK) (VInt 1)) MyInt = Some (VInt 1, Any MyInt (VInt 1))"
    by (simp add: convert_def MyInt_def)
  have k: "kind_of MyInt \<noteq> PointerK" by (simp add: MyInt_def)
  have f: "separator ints_field = '',''" "key ints_field = ''INTS''"
    by (simp_all add: ints_field_def)
  have sl: "setSlice no_externs (SliceOf MyInt) (VSlice None) raw ints_field p = Panic"
    if "raw = ''1,x,y''" for raw p
    by (simp add: that setSlice_def GetParseFunc_MyInt f Split_1xy call_def intParser_1 na Let_def)
  have g: "GetParseFunc no_externs (SliceOf MyInt) = NotFound"
    by (simp add: GetParseFunc_def GetParseFunc_loop.simps handleTextUnmarshaler_def
          unpack_pointers.simps defaultBuiltInParsers_def no_externs_def)
  have sv: "setValue no_externs (example_env [''INTS'' \<mapsto> ''1,x,y'']) (SliceOf MyInt) (VSlice None) ints_field [] = Panic"
    by (subst setValue.simps)
       (simp add: getEnv_def example_env_def deref_def reref_def g Let_def map_value_def f sl)
  have e: "getEnv (example_env [''INTS'' \<mapsto> ''1'']) (key ints_field) = Some ''1''"
    by (simp add: getEnv_def example_env_def f)
  have sc: "setValue no_externs (example_env [''INTS'' \<mapsto> ''1'']) MyInt (VInt 0) ints_field [] =
     Done (VInt 1, [], [ParserCall MyInt ''1'', OnSetCall ''INTS'' (Any MyInt (VInt 1)) False])"
  proof -
    have kp: "keyWithPrefix (example_env [''INTS'' \<mapsto> ''1'']) ''INTS'' = ''INTS''"
      "onSet (example_env [''INTS'' \<mapsto> ''1''])"
      by (simp_all add: keyWithPrefix_def example_env_def)
    show ?thesis
      by (simp add: setValue_leaf[OF e _ k GetParseFunc_MyInt] intParser_1 cv f kp)
  qed
  from GetParseFunc_MyInt sl[OF refl] sv sc show ?thesis by blast
qed

lemma GetParseFunc_int_pointer:
  "GetParseFunc no_externs (PointerTo (Basic IntK)) = Found (Some (intParser IntK 32)) 1"
  by (simp add: GetParseFunc_def GetParseFunc_loop.simps handleTextUnmarshaler_def
        unpack_pointers.simps defaultBuiltInParsers_def no_externs_def)

lemma GetParseFunc_string:
  "GetParseFunc no_externs (Basic StringK) =
     Found (Some (\<lambda>v. PRet (Any (Basic StringK) (VString v)) None)) 0"
  by (intro GetParseFunc_builtin) (simp_all add: defaultBuiltInParsers_def no_externs_def)

text \<open>
  Claim C6, at the input where the code departs from it. A field of type
  \<^verbatim>\<open>map[string]*int\<close> with the raw text \<^verbatim>\<open>"a:1,b"\<close>, whose second entry lacks the
  key/value separator: the parser of the value type is the built-in parser of the
  kind \<^verbatim>\<open>int\<close>, found at pointer depth 1; \<^verbatim>\<open>setMap\<close> drops the pointer depth and
  converts the \<^verbatim>\<open>int\<close> to \<^verbatim>\<open>*int\<close>, so the decode panics at the first entry and the
  malformed entry is never reported. \<^verbatim>\<open>setSlice\<close> restores the pointers: a field of
  type \<^verbatim>\<open>[]*int\<close> is decoded.
\<close>

theorem setMap_pointer_value_type_panics:
  "GetParseFunc no_externs (PointerTo (Basic IntK)) = Found (Some (intParser IntK 32)) 1 \<and>
   setMap no_externs (MapOf (Basic StringK) (PointerTo (Basic IntK))) (VMap None) ''a:1,b'' map_field
     (example_env Map.empty) = Panic \<and>
   setValue no_externs (example_env [''MAP'' \<mapsto> ''a:1,b''])
     (MapOf (Basic StringK) (PointerTo (Basic IntK))) (VMap None) map_field [] = Panic \<and>
   setSlice no_externs (SliceOf (PointerTo (Basic IntK))) (VSlice None) ''1'' ints_field
     (example_env Map.empty) =
     Done (VSlice (Some [VPtr (Some (VInt 1))]), [], [ParserCall (PointerTo (Basic IntK)) ''1''])"
proof -
  let ?mt = "MapOf (Basic StringK) (PointerTo (Basic IntK))"
  have f: "separator map_field = '',''" "kvSeparator map_field = '':''" "key map_field = ''MAP''"
    "separator ints_field = '',''"
    by (simp_all add: map_field_def ints_field_def)
  have sp: "Split ''a:1,b'' '','' = [''a:1'', ''b'']" "Split ''1'' '','' = [''1'']"
    by (simp_all add: Split_def genSplit_def Count.simps eval_nat_numeral)
  have kv: "SplitN ''a:1'' '':'' 2 = [''a'', ''1'']"
    by (simp add: SplitN_def genSplit_def Count.simps eval_nat_numeral)
  have p1: "intParser IntK 32 ''1'' = PRet (Any (Basic IntK) (VInt 1)) None"
    by (simp add: parser_defs)
  have sm: "setMap no_externs ?mt (VMap None) raw map_field p = Panic" if "raw = ''a:1,b''" for raw p
    by (simp add: that setMap_def GetParseFunc_string GetParseFunc_int_pointer f sp kv
          call_def p1 convert_def Let_def)
  have g: "GetParseFunc no_externs ?mt = NotFound"
    by (simp add: GetParseFunc_def GetParseFunc_loop.simps handleTextUnmarshaler_def
          unpack_pointers.simps defaultBuiltInParsers_def no_externs_def)
  have sv: "setValue no_externs (example_env [''MAP'' \<mapsto> ''a:1,b'']) ?mt (VMap None) map_field [] = Panic"
    by (subst setValue.simps)
       (simp add: getEnv_def example_env_def deref_def reref_def g Let_def map_value_def f sm)
  have sl: "setSlice no_externs (SliceOf (PointerTo (Basic IntK))) (VSlice None) ''1'' ints_field
      (example_env Map.empty) =
     Done (VSlice (Some [VPtr (Some (VInt 1))]), [], [ParserCall (PointerTo (Basic IntK)) ''1''])"
    by (simp add: setSlice_def GetParseFunc_int_pointer f sp call_def p1 assignable_def stored_def
          Let_def)
  from GetParseFunc_int_pointer sm[OF refl] sv sl show ?thesis by blast
qed

lemma unwrapN_wrapN: "unwrapN n (wrapN n v) = Some v"
  by (induction n) simp_all

lemma setValue_value_receiver_depth:
  assumes base: "kind_of base \<noteq> PointerK" "kind_of base \<noteq> InterfaceK"
      "valueUnmarshalText x base = Some um"
    and reg: "envRegistry x (ptrN (n - 1) base) = None"
    and raw: "um raw = None" "getEnv p (key f) = Some raw" "raw \<noteq> []"
  shows "setValue x p (ptrN n base) v f pfx =
     Done (wrapN n (zero base), [],
           ParserCall (ptrN (n - 1) base) raw #
           (if onSet p
            then [OnSetCall (keyWithPrefix p (key f))
                    (Any (ptrN (n - 1) base) (wrapN (n - 1) (zero base))) False]
            else []))"
proof (cases n)
  case 0
  have g: "GetParseFunc x base = Found (Some (valueTextUnmarshaler um base 0)) 0"
    using GetParseFunc_value_receiver[of base x 0 um] base reg 0 by simp
  show ?thesis
    using 0 base raw
    by (simp add: setValue_leaf[OF raw(2,3) base(1) g] valueTextUnmarshaler_depth convert_def)
next
  case (Suc m)
  have g: "GetParseFunc x (ptrN m base) = Found (Some (valueTextUnmarshaler um base m)) 0"
    using GetParseFunc_value_receiver[of base x m um] base reg Suc by simp
  show ?thesis
    unfolding Suc
    by (subst setValue.simps)
       (simp add: raw base deref_def reref_def call_def g valueTextUnmarshaler_depth convert_def Let_def)
qed


text \<open>
  Claim C8 as stated fails on the value-receiver path. \<^verbatim>\<open>Level\<close> declares
  \<^verbatim>\<open>UnmarshalText\<close> with a value receiver, so the method works on a copy of its
  receiver. The synthesized parser returns the zero value, in the declared number of
  pointer layers, whatever the text: a field of type \<^verbatim>\<open>Level\<close> is set to the empty
  text for \<^verbatim>\<open>"abc"\<close> and for \<^verbatim>\<open>"abd"\<close>, and a field of type \<^verbatim>\<open>**Level\<close> to two
  pointers around the empty text. The inverse serialization of the assigned value
  gives the empty text, not the raw text.
\<close>

theorem value_receiver_decodes_to_zero:
  "setValue level_externs (env_N ''abc'') Level (VString ''old'') field_N [] =
     Done (VString [], [],
           [ParserCall Level ''abc'', OnSetCall ''N'' (Any Level (VString [])) False]) \<and>
   setValue level_externs (env_N ''abd'') Level (VString ''old'') field_N [] =
     Done (VString [], [],
           [ParserCall Level ''abd'', OnSetCall ''N'' (Any Level (VString [])) False]) \<and>
   setValue level_externs (env_N ''abc'') (PointerTo (PointerTo Level)) (VPtr None) field_N [] =
     Done (VPtr (Some (VPtr (Some (VString [])))), [],
           [ParserCall (PointerTo Level) ''abc'',
            OnSetCall ''N'' (Any (PointerTo Level) (VPtr (Some (VString [])))) False]) \<and>
   MarshalText (value_of (setValue level_externs (env_N ''abc'') Level (VString ''old'') field_N [])) \<noteq> ''abc''"
  by (simp add: setValue.simps env_N_def field_N_def getEnv_def keyWithPrefix_def deref_def reref_def
        call_def convert_def GetParseFunc_def GetParseFunc_loop.simps handleTextUnmarshaler_def
        unpack_pointers.simps valueTextUnmarshaler_def level_externs_def no_externs_def Level_def
        any_of_def Let_def MarshalText_def)

text \<open>
  Claim C8 as amended. For a field whose raw text is \<open>raw\<close>, of a type at pointer
  depth \<open>n\<close> over a text-decodable base type, with no parser registered for the
  pointer types involved: the lookup finds the synthesized parser at pointer depth
  0, the parser returns a value of the type it was looked up for, in exactly \<open>n\<close>
  layers of pointers, and the value assigned to the field has exactly \<open>n\<close> layers.
  On the pointer-receiver path it is the decoded value (at depth 0 the target of the
  synthesized pointer), so an inverse serialization gives the raw text back from it;
  on the value-receiver path it is the zero value of the base type.
\<close>

theorem text_unmarshaler_restores_pointer_depth:
  assumes base: "kind_of base \<noteq> PointerK"
    and reg: "envRegistry x (ptrN n base) = None" "envRegistry x (ptrN (n - 1) base) = None"
    and env: "getEnv p (key f) = Some raw" "raw \<noteq> []"
  shows
    "(valueUnmarshalText x base = None \<and> ptrUnmarshalText x base = Some um \<and> um raw = Inr d \<longrightarrow>
        GetParseFunc x (ptrN n base) = Found (Some (ptrTextUnmarshaler um base n)) 0 \<and>
        ptrTextUnmarshaler um base n raw = PRet (Any (ptrN n base) (wrapN n d)) None \<and>
        setValue x p (ptrN n base) v f pfx =
          Done (wrapN n d, [],
                ParserCall (ptrN (n - 1) base) raw #
                (if onSet p
                 then [OnSetCall (keyWithPrefix p (key f)) (Any (ptrN (n - 1) base) (wrapN (n - 1) d)) False]
                 else [])) \<and>
        (marshal d = raw \<longrightarrow>
           map_option marshal (unwrapN n (value_of (setValue x p (ptrN n base) v f pfx))) = Some raw)) \<and>
     (valueUnmarshalText x base = Some vm \<and> kind_of base \<noteq> InterfaceK \<and> vm raw = None \<longrightarrow>
        GetParseFunc x (ptrN n base) = Found (Some (valueTextUnmarshaler vm base n)) 0 \<and>
        valueTextUnmarshaler vm base n raw = PRet (Any (ptrN n base) (wrapN n (zero base))) None \<and>
        setValue x p (ptrN n base) v f pfx =
          Done (wrapN n (zero base), [],
                ParserCall (ptrN (n - 1) base) raw #
                (if onSet p
                 then [OnSetCall (keyWithPrefix p (key f))
                         (Any (ptrN (n - 1) base) (wrapN (n - 1) (zero base))) False]
                 else [])))"
proof (intro conjI impI)
  assume a: "valueUnmarshalText x base = None \<and> ptrUnmarshalText x base = Some um \<and> um raw = Inr d"
  then have vu: "valueUnmarshalText x base = None" and pu: "ptrUnmarshalText x base = Some um"
    and d: "um raw = Inr d"
    by simp_all
  show "GetParseFunc x (ptrN n base) = Found (Some (ptrTextUnmarshaler um base n)) 0"
    using base reg(1) vu pu by (rule GetParseFunc_ptr_receiver)
  show "ptrTextUnmarshaler um base n raw = PRet (Any (ptrN n base) (wrapN n d)) None"
    by (simp add: ptrTextUnmarshaler_depth d)
  show sv: "setValue x p (ptrN n base) v f pfx =
          Done (wrapN n d, [],
                ParserCall (ptrN (n - 1) base) raw #
                (if onSet p
                 then [OnSetCall (keyWithPrefix p (key f)) (Any (ptrN (n - 1) base) (wrapN (n - 1) d)) False]
                 else []))"
    using base vu pu reg(2) d env by (rule setValue_ptr_receiver_depth)
  assume "marshal d = raw"
  then show "map_option marshal (unwrapN n (value_of (setValue x p (ptrN n base) v f pfx))) = Some raw"
    by (simp add: sv unwrapN_wrapN)
next
  assume a: "valueUnmarshalText x base = Some vm \<and> kind_of base \<noteq> InterfaceK \<and> vm raw = None"
  then have vu: "valueUnmarshalText x base = Some vm" and ni: "kind_of base \<noteq> InterfaceK"
    and d: "vm raw = None"
    by simp_all
  show "GetParseFunc x (ptrN n base) = Found (Some (valueTextUnmarshaler vm base n)) 0"
    using base reg(1) vu by (rule GetParseFunc_value_receiver)
  show "valueTextUnmarshaler vm base n raw = PRet (Any (ptrN n base) (wrapN n (zero base))) None"
    by (simp add: valueTextUnmarshaler_depth[OF ni] d)
  show "setValue x p (ptrN n base) v f pfx =
          Done (wrapN n (zero base), [],
                ParserCall (ptrN (n - 1) base) raw #
                (if onSet p
                 then [OnSetCall (keyWithPrefix p (key f))
                         (Any (ptrN (n - 1) base) (wrapN (n - 1) (zero base))) False]
                 else []))"
    using base ni vu reg(2) d env by (rule setValue_value_receiver_depth)
qed


theorem text_unmarshaler_restores_pointer_depth_witness:
  "setValue token_externs (env_N ''abc'') Token (VString ''old'') field_N [] =
     Done (VString ''abc'', [],
           [ParserCall Token ''abc'', OnSetCall ''N'' (Any Token (VString ''abc'')) False]) \<and>
   setValue token_externs (env_N ''abc'') (PointerTo (PointerTo Token)) (VPtr None) field_N [] =
     Done (VPtr (Some (VPtr (Some (VString ''abc'')))), [],
           [ParserCall (PointerTo Token) ''abc'',
            OnSetCall ''N'' (Any (PointerTo Token) (VPtr (Some (VString ''abc'')))) False]) \<and>
   map_option MarshalText
     (unwrapN 2 (value_of (setValue token_externs (env_N ''abc'') (PointerTo (PointerTo Token))
        (VPtr None) field_N []))) = Some ''abc'' \<and>
   setValue token_externs (env_N ''abc'') (PointerTo (PointerTo Level)) (VPtr None) field_N [] =
     Done (VPtr (Some (VPtr (Some (VString [])))), [],
           [ParserCall (PointerTo Level) ''abc'',
            OnSetCall ''N'' (Any (PointerTo Level) (VPtr (Some (VString [])))) False])"
proof -
  let ?um = "\<lambda>raw. Inr (VString raw) :: err + val"
  let ?vm = "\<lambda>raw::string. None :: err option"
  have k: "kind_of Token \<noteq> PointerK" "kind_of Level \<noteq> PointerK" "kind_of Level \<noteq> InterfaceK"
    by (simp_all add: Token_def Level_def)
  have reg: "envRegistry token_externs t = None" for t
    by (simp add: token_externs_def level_externs_def no_externs_def)
  have tl: "Token \<noteq> Level" by (simp add: Token_def Level_def)
  have um: "valueUnmarshalText token_externs Token = None"
      "ptrUnmarshalText token_externs Token = Some ?um"
      "valueUnmarshalText token_externs Level = Some ?vm"
    using tl by (simp_all add: token_externs_def level_externs_def no_externs_def)
  have env: "getEnv (env_N ''abc'') (key field_N) = Some ''abc''" "''abc'' \<noteq> []"
    by (simp_all add: getEnv_def env_N_def field_N_def)
  have p: "onSet (env_N ''abc'')" "keyWithPrefix (env_N ''abc'') (key field_N) = ''N''"
    by (simp_all add: env_N_def keyWithPrefix_def field_N_def)
  have n2: "ptrN 2 t = PointerTo (PointerTo t)" "ptrN (2 - 1) t = PointerTo t"
    "wrapN 2 w = VPtr (Some (VPtr (Some w)))" "wrapN (2 - 1) w = VPtr (Some w)" for t w
    by (simp_all add: eval_nat_numeral)
  have z: "zero Level = VString []" by (simp add: Level_def)
  have m: "MarshalText (VString ''abc'') = ''abc''" by (simp add: MarshalText_def)
  note t0 = text_unmarshaler_restores_pointer_depth[where base = Token and x = token_externs
      and n = 0 and p = "env_N ''abc''" and f = field_N and raw = "''abc''" and um = ?um
      and d = "VString ''abc''" and v = "VString ''old''" and pfx = "[]",
      OF k(1) reg reg env, THEN conjunct1, rule_format, OF conjI[OF um(1) conjI[OF um(2) refl]]]
  note t2 = text_unmarshaler_restores_pointer_depth[where base = Token and x = token_externs
      and n = 2 and p = "env_N ''abc''" and f = field_N and raw = "''abc''" and um = ?um
      and d = "VString ''abc''" and v = "VPtr None" and pfx = "[]" and marshal = MarshalText,
      OF k(1) reg reg env, THEN conjunct1, rule_format, OF conjI[OF um(1) conjI[OF um(2) refl]]]
  note l2 = text_unmarshaler_restores_pointer_depth[where base = Level and x = token_externs
      and n = 2 and p = "env_N ''abc''" and f = field_N and raw = "''abc''" and vm = ?vm
      and v = "VPtr None" and pfx = "[]",
      OF k(2) reg reg env, THEN conjunct2, rule_format, OF conjI[OF um(3) conjI[OF k(3) refl]]]
  from t0[THEN conjunct2, THEN conjunct2, THEN conjunct1]
  have a: "setValue token_externs (env_N ''abc'') Token (VString ''old'') field_N [] =
     Done (VString ''abc'', [],
           [ParserCall Token ''abc'', OnSetCall ''N'' (Any Token (VString ''abc'')) False])"
    by (simp add: p)
  from t2[THEN conjunct2, THEN conjunct2, THEN conjunct1, unfolded n2]
  have b: "setValue token_externs (env_N ''abc'') (PointerTo (PointerTo Token)) (VPtr None) field_N [] =
     Done (VPtr (Some (VPtr (Some (VString ''abc'')))), [],
           [ParserCall (PointerTo Token) ''abc'',
            OnSetCall ''N'' (Any (PointerTo Token) (VPtr (Some (VString ''abc'')))) False])"
    by (simp add: p)
  note c = t2[THEN conjunct2, THEN conjunct2, THEN conjunct2, rule_format, OF m, unfolded n2]
  from l2[THEN conjunct2, THEN conjunct2, unfolded n2 z]
  have d: "setValue token_externs (env_N ''abc'') (PointerTo (PointerTo Level)) (VPtr None) field_N [] =
     Done (VPtr (Some (VPtr (Some (VString [])))), [],
           [ParserCall (PointerTo Level) ''abc'',
            OnSetCall ''N'' (Any (PointerTo Level) (VPtr (Some (VString [])))) False])"
    by (simp add: p)
  from a b c d show ?thesis by blast
qed

end
